theory Spec2Isabelle
  imports Main "HOL-Library.List_Lexorder" "HOL-Library.AList" "HOL-Library.Multiset"
begin

section \<open>Text, bytes and paths\<close>

text \<open>
  A Python \<open>str\<close> is a sequence of code points, a \<open>bytes\<close> value a sequence of
  8-bit characters. Comparison of \<open>str\<close> values is lexicographic on code points, which is
  the order \<open>HOL-Library.List_Lexorder\<close> gives to \<open>nat list\<close>.
\<close>

type_synonym str = "nat list"
type_synonym bytes = "char list"

definition ascii :: "string \<Rightarrow> str" where
  "ascii s = map of_char s"

text \<open>
  A \<open>pathlib\<close> path is its tuple of parts. Paths compare part by part
  (\<open>PurePath.__lt__\<close> compares the part lists), so a path list is sorted by the
  lexicographic order on \<open>str list\<close>.
\<close>

type_synonym path = "str list"

fun join_with :: "str \<Rightarrow> str list \<Rightarrow> str" where
  "join_with sep [] = []"
| "join_with sep [s] = s"
| "join_with sep (s # t # ss) = s @ sep @ join_with sep (t # ss)"

definition str_of_path :: "path \<Rightarrow> str" where
  \<comment> \<open>\<open>str(rel_path)\<close> of a relative POSIX path\<close>
  "str_of_path p = join_with (ascii ''/'') p"

definition path_name :: "path \<Rightarrow> str" where
  \<comment> \<open>\<open>p.name\<close>: the last part, empty for the empty path\<close>
  "path_name p = (case rev p of [] \<Rightarrow> [] | s # _ \<Rightarrow> s)"

definition relative_to :: "path \<Rightarrow> path \<Rightarrow> path option" where
  \<comment> \<open>\<open>p.relative_to(root)\<close>; \<open>None\<close> is the \<open>ValueError\<close> of a path outside \<open>root\<close>\<close>
  "relative_to root p =
     (if take (length root) p = root then Some (drop (length root) p) else None)"

datatype error =
    UnicodeDecodeError
  | UnicodeEncodeError
  | PermissionError path
  | OSError path
  | IndexError
  | NotRelative path
  | ManifestMissing
  | UnexpectedFile str
  | HashMismatch str str str
  | MissingFile str
  | UnsafeAbsolute str
  | UnsafeTraversal str
  | UnsafeLink str
  | BundleNotFound
  | FailedToExtract error

section \<open>The file tree\<close>

text \<open>
  A directory tree is the list of its entries, each under its path relative to the root
  of the tree, in the order in which the operating system enumerates them: \<open>rglob\<close>
  walks that order, which the program does not control. Every entry carries what
  \<open>lstat\<close> reports and whether the file can be opened for reading; for a directory
  the flag says whether its entries can be enumerated, and nothing else: an entry is
  found under its path (\<open>stat\<close>, \<open>open\<close>) whatever the directories above it allow.
  The root directory itself is not an entry, and it can be enumerated. Entries are
  regular files, directories and other nodes (a FIFO); links are left out: \<open>copytree\<close> and \<open>copy2\<close> stage the files that links point to,
  and the extractor refuses link members.
\<close>

datatype node = File bytes | Dir | Other

record entry =
  e_node :: node
  e_mode :: nat
  e_uid :: nat
  e_gid :: nat
  e_uname :: str
  e_gname :: str
  e_mtime :: int
  e_readable :: bool

type_synonym tree = "(path \<times> entry) list"

definition proper_prefixes :: "path \<Rightarrow> path list" where
  \<comment> \<open>the directories above a relative path, outermost first\<close>
  "proper_prefixes rel = map (\<lambda>n. take n rel) [1..<length rel]"

definition listable :: "tree \<Rightarrow> path \<Rightarrow> bool" where
  \<comment> \<open>a directory whose entries \<open>scandir\<close> can enumerate\<close>
  "listable t d =
     (case map_of t d of
        None \<Rightarrow> False
      | Some e \<Rightarrow> (case e_node e of Dir \<Rightarrow> e_readable e | _ \<Rightarrow> False))"

definition reachable :: "tree \<Rightarrow> path \<Rightarrow> bool" where
  \<comment> \<open>every directory above the path can be enumerated\<close>
  "reachable t p = list_all (listable t) (proper_prefixes p)"

definition walked :: "tree \<Rightarrow> path list \<Rightarrow> path list" where
  \<comment> \<open>those of the paths that the recursive walk yields\<close>
  "walked t ps = filter (\<lambda>p. p \<noteq> [] \<and> reachable t p) ps"

definition rglob :: "path \<Rightarrow> tree \<Rightarrow> path list" where
  \<comment> \<open>\<open>root.rglob("*")\<close>: the absolute path of every entry below \<open>root\<close> that the
      walk reaches. The walk descends into directories only, and a \<open>PermissionError\<close>
      from \<open>scandir\<close> is swallowed: what lies in a directory that cannot be enumerated
      is left out without an error\<close>
  "rglob root t = map (\<lambda>p. root @ p) (walked t (map fst t))"

definition lstat :: "path \<Rightarrow> tree \<Rightarrow> path \<Rightarrow> entry option" where
  \<comment> \<open>the entry at an absolute path, for a tree mounted at \<open>root\<close>\<close>
  "lstat root t p = (case relative_to root p of None \<Rightarrow> None | Some rel \<Rightarrow> map_of t rel)"

definition is_file :: "path \<Rightarrow> tree \<Rightarrow> path \<Rightarrow> bool" where
  "is_file root t p =
     (case lstat root t p of
        Some e \<Rightarrow> (case e_node e of File _ \<Rightarrow> True | _ \<Rightarrow> False)
      | None \<Rightarrow> False)"

definition read_bytes :: "path \<Rightarrow> tree \<Rightarrow> path \<Rightarrow> error + bytes" where
  \<comment> \<open>\<open>open(p, "rb")\<close> and read to the end\<close>
  "read_bytes root t p =
     (case lstat root t p of
        None \<Rightarrow> Inl (OSError p)
      | Some e \<Rightarrow>
          (case e_node e of
             File c \<Rightarrow> if e_readable e then Inr c else Inl (PermissionError p)
           | _ \<Rightarrow> Inl (OSError p)))"

definition DS_Store :: str where
  "DS_Store = ascii ''.DS_Store''"

definition manifest_rel :: path where
  \<comment> \<open>\<open>manifest/sha256sum.txt\<close>\<close>
  "manifest_rel = [ascii ''manifest'', ascii ''sha256sum.txt'']"

text \<open>
  Files and directories the program creates get the attributes the operating system
  gives a new node (owner, umask, clock); they are the parameter \<open>fresh\<close> of the
  operations that write.
\<close>

definition mkdir_exist_ok :: "(node \<Rightarrow> entry) \<Rightarrow> tree \<Rightarrow> path \<Rightarrow> error + tree" where
  \<comment> \<open>\<open>mkdir(exist_ok=True)\<close> of one directory\<close>
  "mkdir_exist_ok fresh t rel =
     (case map_of t rel of
        None \<Rightarrow> Inr (t @ [(rel, fresh Dir)])
      | Some e \<Rightarrow> (case e_node e of Dir \<Rightarrow> Inr t | _ \<Rightarrow> Inl (OSError rel)))"

definition write_file :: "(node \<Rightarrow> entry) \<Rightarrow> tree \<Rightarrow> path \<Rightarrow> bytes \<Rightarrow> error + tree" where
  \<comment> \<open>\<open>open(p, "w")\<close>, write, close: a new file, or new content for an existing one\<close>
  "write_file fresh t rel c =
     (case map_of t rel of
        None \<Rightarrow> Inr (t @ [(rel, fresh (File c))])
      | Some e \<Rightarrow>
          (case e_node e of
             File _ \<Rightarrow> Inr (AList.update rel (e\<lparr>e_node := File c\<rparr>) t)
           | _ \<Rightarrow> Inl (OSError rel)))"

section \<open>Text files\<close>

text \<open>
  Both the manifest writer and its reader open the file in text mode with
  \<open>encoding="utf-8"\<close>. Encoding refuses surrogate code points, decoding refuses every
  byte sequence that is not well-formed UTF-8 (\<open>None\<close> is the \<open>UnicodeError\<close>).
\<close>

definition utf8_encode_char :: "nat \<Rightarrow> nat list option" where
  "utf8_encode_char c =
     (if c < 128 then Some [c]
      else if c < 2048 then Some [192 + c div 64, 128 + c mod 64]
      else if c < 65536 then
        (if 55296 \<le> c \<and> c \<le> 57343 then None
         else Some [224 + c div 4096, 128 + (c div 64) mod 64, 128 + c mod 64])
      else if c < 1114112 then
        Some [240 + c div 262144, 128 + (c div 4096) mod 64, 128 + (c div 64) mod 64,
              128 + c mod 64]
      else None)"

fun utf8_encode_nat :: "str \<Rightarrow> nat list option" where
  "utf8_encode_nat [] = Some []"
| "utf8_encode_nat (c # cs) =
     (case utf8_encode_char c of
        None \<Rightarrow> None
      | Some bs \<Rightarrow> (case utf8_encode_nat cs of None \<Rightarrow> None | Some r \<Rightarrow> Some (bs @ r)))"

definition utf8_encode :: "str \<Rightarrow> bytes option" where
  "utf8_encode s = map_option (map char_of) (utf8_encode_nat s)"

definition is_cont :: "nat \<Rightarrow> bool" where
  "is_cont b = (128 \<le> b \<and> b \<le> 191)"

fun utf8_decode_nat :: "nat list \<Rightarrow> str option" where
  "utf8_decode_nat [] = Some []"
| "utf8_decode_nat (b # bs) =
     (if b < 128 then map_option (\<lambda>r. b # r) (utf8_decode_nat bs)
      else if 194 \<le> b \<and> b \<le> 223 then
        (case bs of
           c1 # r \<Rightarrow>
             if is_cont c1
             then map_option (\<lambda>r'. ((b - 192) * 64 + (c1 - 128)) # r') (utf8_decode_nat r)
             else None
         | _ \<Rightarrow> None)
      else if 224 \<le> b \<and> b \<le> 239 then
        (case bs of
           c1 # c2 # r \<Rightarrow>
             if (if b = 224 then 160 else 128) \<le> c1 \<and> c1 \<le> (if b = 237 then 159 else 191)
                \<and> is_cont c2
             then map_option
                    (\<lambda>r'. ((b - 224) * 4096 + (c1 - 128) * 64 + (c2 - 128)) # r')
                    (utf8_decode_nat r)
             else None
         | _ \<Rightarrow> None)
      else if 240 \<le> b \<and> b \<le> 244 then
        (case bs of
           c1 # c2 # c3 # r \<Rightarrow>
             if (if b = 240 then 144 else 128) \<le> c1 \<and> c1 \<le> (if b = 244 then 143 else 191)
                \<and> is_cont c2 \<and> is_cont c3
             then map_option
                    (\<lambda>r'. ((b - 240) * 262144 + (c1 - 128) * 4096 + (c2 - 128) * 64
                            + (c3 - 128)) # r')
                    (utf8_decode_nat r)
             else None
         | _ \<Rightarrow> None)
      else None)"

definition utf8_decode :: "bytes \<Rightarrow> str option" where
  "utf8_decode bs = utf8_decode_nat (map of_char bs)"

text \<open>
  Iterating a text file yields its lines, each ending in \<open>\n\<close>; with universal newlines
  \<open>\r\<close> and \<open>\r\n\<close> end a line too and are read as \<open>\n\<close>.
\<close>

fun readlines :: "str \<Rightarrow> str \<Rightarrow> str list" where
  "readlines cur [] = (if cur = [] then [] else [cur])"
| "readlines cur (c # cs) =
     (if c = 10 then (cur @ [10]) # readlines [] cs
      else if c = 13 then
        (case cs of
           [] \<Rightarrow> [cur @ [10]]
         | d # ds \<Rightarrow>
             if d = 10 then (cur @ [10]) # readlines [] ds else (cur @ [10]) # readlines [] cs)
      else readlines (cur @ [c]) cs)"

definition isspace :: "nat \<Rightarrow> bool" where
  \<comment> \<open>the code points \<open>str.strip()\<close> removes\<close>
  "isspace c =
     ((9 \<le> c \<and> c \<le> 13) \<or> (28 \<le> c \<and> c \<le> 32) \<or> c = 133 \<or> c = 160 \<or> c = 5760
      \<or> (8192 \<le> c \<and> c \<le> 8202) \<or> c = 8232 \<or> c = 8233 \<or> c = 8239 \<or> c = 8287
      \<or> c = 12288)"

definition strip :: "str \<Rightarrow> str" where
  "strip s = rev (dropWhile isspace (rev (dropWhile isspace s)))"

fun split_once :: "str \<Rightarrow> str \<Rightarrow> str list" where
  \<comment> \<open>\<open>s.split(sep, 1)\<close> for a non-empty separator\<close>
  "split_once sep [] = [[]]"
| "split_once sep (c # cs) =
     (if take (length sep) (c # cs) = sep then [[], drop (length sep) (c # cs)]
      else (case split_once sep cs of
              [] \<Rightarrow> [[c]]
            | a # rest \<Rightarrow> (c # a) # rest))"

fun split_on :: "nat \<Rightarrow> str \<Rightarrow> str list" where
  \<comment> \<open>\<open>s.split(c)\<close> for a single character\<close>
  "split_on c [] = [[]]"
| "split_on c (x # xs) =
     (if x = c then [] # split_on c xs
      else (case split_on c xs of [] \<Rightarrow> [[x]] | a # rest \<Rightarrow> (x # a) # rest))"

section \<open>util.get\_source\_date\_epoch\<close>

text \<open>
  The environment is a map from names to values. Python's \<open>int\<close> on a string is a
  builtin and is taken as a parameter \<open>to_int\<close>, \<open>None\<close> standing for its
  \<open>ValueError\<close>, the only exception the function catches and the only one \<open>int\<close>
  raises on a string.
\<close>

type_synonym environ = "str \<rightharpoonup> str"

definition get_source_date_epoch :: "(str \<Rightarrow> int option) \<Rightarrow> environ \<Rightarrow> int" where
  "get_source_date_epoch to_int env =
     (let val = (case env (ascii ''SOURCE_DATE_EPOCH'') of None \<Rightarrow> ascii ''0'' | Some v \<Rightarrow> v)
      in case to_int val of Some n \<Rightarrow> n | None \<Rightarrow> 0)"

text \<open>A decimal reader for plain ASCII digit strings, used to run the definitions.\<close>

fun digits_value :: "nat \<Rightarrow> str \<Rightarrow> nat option" where
  "digits_value acc [] = Some acc"
| "digits_value acc (c # cs) =
     (if 48 \<le> c \<and> c \<le> 57 then digits_value (10 * acc + (c - 48)) cs else None)"

definition ascii_int :: "str \<Rightarrow> int option" where
  "ascii_int s =
     (case s of
        [] \<Rightarrow> None
      | c # cs \<Rightarrow>
          if c = 45 then (if cs = [] then None else map_option (\<lambda>n. - int n) (digits_value 0 cs))
          else map_option int (digits_value 0 s))"

section \<open>pack: the archive builder\<close>

datatype tartype = REGTYPE | DIRTYPE | SYMTYPE | LNKTYPE | FIFOTYPE

record tarinfo =
  name :: str
  ttype :: tartype
  mode :: nat
  uid :: nat
  gid :: nat
  uname :: str
  gname :: str
  mtime :: int
  tsize :: nat
  linkname :: str

text \<open>A member of the stream is its header and the bytes that follow it.\<close>

type_synonym member = "tarinfo \<times> bytes"

definition normalize_tarinfo :: "(str \<Rightarrow> int option) \<Rightarrow> environ \<Rightarrow> tarinfo \<Rightarrow> tarinfo" where
  "normalize_tarinfo to_int env ti =
     ti\<lparr>uid := 0, gid := 0, uname := [], gname := [],
        mtime := get_source_date_epoch to_int env\<rparr>"

definition gettarinfo :: "entry \<Rightarrow> str \<Rightarrow> tarinfo" where
  \<comment> \<open>\<open>TarFile.gettarinfo(p, arcname)\<close> on a regular file, a directory or a FIFO\<close>
  "gettarinfo e arcname =
     \<lparr>name = arcname,
      ttype = (case e_node e of File _ \<Rightarrow> REGTYPE | Dir \<Rightarrow> DIRTYPE | Other \<Rightarrow> FIFOTYPE),
      mode = e_mode e, uid = e_uid e, gid = e_gid e,
      uname = e_uname e, gname = e_gname e, mtime = e_mtime e,
      tsize = (case e_node e of File c \<Rightarrow> length c | _ \<Rightarrow> 0),
      linkname = []\<rparr>"

definition tar_add ::
  "(tarinfo \<Rightarrow> tarinfo) \<Rightarrow> path \<Rightarrow> tree \<Rightarrow> path \<Rightarrow> str \<Rightarrow> error + member" where
  \<comment> \<open>\<open>tar.add(p, arcname, filter, recursive=False)\<close>: one member, never the children
      of a directory; the header is built and filtered first, then the file is opened\<close>
  "tar_add flt root t p arcname =
     (case lstat root t p of
        None \<Rightarrow> Inl (OSError p)
      | Some e \<Rightarrow>
          (let ti = flt (gettarinfo e arcname)
           in case e_node e of
                File c \<Rightarrow> if e_readable e then Inr (ti, c) else Inl (PermissionError p)
              | _ \<Rightarrow> Inr (ti, [])))"

text \<open>
  The output file: the gzip header fields the program sets, the members written so far,
  and whether the tar stream was closed with its end-of-archive blocks.
  \<open>gzip.GzipFile\<close> stamps the header with the wall-clock time when no \<open>mtime\<close> is
  passed.
\<close>

record archive =
  gz_filename :: str
  gz_mtime :: int
  members :: "member list"
  complete :: bool

definition gzip_open :: "str \<Rightarrow> int option \<Rightarrow> int \<Rightarrow> archive" where
  "gzip_open fname mt now =
     \<lparr>gz_filename = fname, gz_mtime = (case mt of None \<Rightarrow> now | Some t \<Rightarrow> t),
      members = [], complete = False\<rparr>"

fun add_all ::
  "(tarinfo \<Rightarrow> tarinfo) \<Rightarrow> path \<Rightarrow> tree \<Rightarrow> path list \<Rightarrow> archive \<Rightarrow> error option \<times> archive" where
  "add_all flt root t [] a = (None, a)"
| "add_all flt root t (p # ps) a =
     (if path_name p = DS_Store then add_all flt root t ps a
      else case relative_to root p of
             None \<Rightarrow> (Some (NotRelative p), a)
           | Some rel \<Rightarrow>
               (case tar_add flt root t p (str_of_path rel) of
                  Inl err \<Rightarrow> (Some err, a)
                | Inr m \<Rightarrow> add_all flt root t ps (a\<lparr>members := members a @ [m]\<rparr>)))"

definition write_bundle ::
  "(str \<Rightarrow> int option) \<Rightarrow> environ \<Rightarrow> int \<Rightarrow> path \<Rightarrow> tree \<Rightarrow> error option \<times> archive" where
  \<comment> \<open>step 6 of \<open>create_bundle\<close>: the first component is the exception that leaves the
      \<open>with\<close> blocks, the second the file left at \<open>bundle_path\<close>\<close>
  "write_bundle to_int env now stage_dir t =
     (let f_gzip = gzip_open [] (Some 0) now;
          all_files = sort (rglob stage_dir t)
      in case add_all (normalize_tarinfo to_int env) stage_dir t all_files f_gzip of
           (Some err, a) \<Rightarrow> (Some err, a)
         | (None, a) \<Rightarrow> (None, a\<lparr>complete := True\<rparr>))"

record tool_meta =
  tool :: str
  version :: str
  created_at_epoch :: int

definition metadata_json :: "(str \<Rightarrow> int option) \<Rightarrow> environ \<Rightarrow> str \<Rightarrow> tool_meta" where
  \<comment> \<open>the dictionary written to \<open>metadata/metadata.json\<close>\<close>
  "metadata_json to_int env v =
     \<lparr>tool = ascii ''ci-evidence-pack'', version = v,
      created_at_epoch = get_source_date_epoch to_int env\<rparr>"

section \<open>manifest: the canonical manifest\<close>

text \<open>
  The digest is SHA-256 in hexadecimal, a library function: it is the parameter \<open>H\<close>,
  from the bytes of a file to the text of its digest.
\<close>

definition calculate_file_hash :: "(bytes \<Rightarrow> str) \<Rightarrow> path \<Rightarrow> tree \<Rightarrow> path \<Rightarrow> error + str" where
  "calculate_file_hash H root t p =
     (case read_bytes root t p of Inl err \<Rightarrow> Inl err | Inr c \<Rightarrow> Inr (H c))"

fun hash_all ::
  "(bytes \<Rightarrow> str) \<Rightarrow> path \<Rightarrow> tree \<Rightarrow> path list \<Rightarrow> (str \<times> str) list \<Rightarrow> error + (str \<times> str) list"
  where
  \<comment> \<open>the loop that fills the dictionary \<open>hashes\<close>\<close>
  "hash_all H root t [] hashes = Inr hashes"
| "hash_all H root t (p # ps) hashes =
     (if \<not> is_file root t p then hash_all H root t ps hashes
      else case relative_to root p of
             None \<Rightarrow> Inl (NotRelative p)
           | Some rel_path \<Rightarrow>
               (case rel_path of
                  [] \<Rightarrow> Inl IndexError
                | part0 # _ \<Rightarrow>
                    if part0 = ascii ''manifest'' \<and> path_name rel_path = ascii ''sha256sum.txt''
                    then hash_all H root t ps hashes
                    else (case calculate_file_hash H root t p of
                            Inl err \<Rightarrow> Inl err
                          | Inr dg \<Rightarrow>
                              hash_all H root t ps (AList.update (str_of_path rel_path) dg hashes))))"

definition manifest_line :: "(str \<times> str) list \<Rightarrow> str \<Rightarrow> str" where
  \<comment> \<open>\<open>f"{hashes[path]}  {path}\n"\<close>; the key is always one of the dictionary's own\<close>
  "manifest_line hashes path =
     (case map_of hashes path of None \<Rightarrow> [] | Some dg \<Rightarrow> dg @ ascii ''  '' @ path @ [10])"

definition manifest_text :: "(str \<times> str) list \<Rightarrow> str" where
  "manifest_text hashes = concat (map (manifest_line hashes) (sort (map fst hashes)))"

definition generate_manifest ::
  "(bytes \<Rightarrow> str) \<Rightarrow> (node \<Rightarrow> entry) \<Rightarrow> path \<Rightarrow> tree \<Rightarrow> error + tree" where
  "generate_manifest H fresh bundle_root t =
     (case mkdir_exist_ok fresh t [ascii ''manifest''] of
        Inl err \<Rightarrow> Inl err
      | Inr t1 \<Rightarrow>
          (case hash_all H bundle_root t1 (sort (rglob bundle_root t1)) [] of
             Inl err \<Rightarrow> Inl err
           | Inr hashes \<Rightarrow>
               (case utf8_encode (manifest_text hashes) of
                  None \<Rightarrow> Inl UnicodeEncodeError
                | Some c \<Rightarrow> write_file fresh t1 manifest_rel c)))"

section \<open>verify: the safe extractor\<close>

definition is_absolute :: "str \<Rightarrow> bool" where
  \<comment> \<open>\<open>Path(name).is_absolute()\<close> on POSIX\<close>
  "is_absolute nm = (case nm of [] \<Rightarrow> False | c # _ \<Rightarrow> c = 47)"

definition segments :: "str \<Rightarrow> path" where
  \<comment> \<open>the parts of \<open>Path(name)\<close> after its root: empty parts and \<open>.\<close> are dropped\<close>
  "segments nm = filter (\<lambda>s. s \<noteq> [] \<and> s \<noteq> ascii ''.'') (split_on 47 nm)"

definition parts :: "str \<Rightarrow> path" where
  \<comment> \<open>\<open>Path(name).parts\<close>: the root, when there is one, then the segments\<close>
  "parts nm =
     (if is_absolute nm
      then (if take 2 nm = ascii ''//'' \<and> take 3 nm \<noteq> ascii ''///'' then ascii ''//''
            else ascii ''/'') # segments nm
      else segments nm)"

definition islink :: "tarinfo \<Rightarrow> bool" where
  \<comment> \<open>\<open>member.issym() or member.islnk()\<close>\<close>
  "islink ti = (ttype ti = SYMTYPE \<or> ttype ti = LNKTYPE)"

fun makedirs :: "(node \<Rightarrow> entry) \<Rightarrow> tree \<Rightarrow> path list \<Rightarrow> error + tree" where
  "makedirs fresh t [] = Inr t"
| "makedirs fresh t (d # ds) =
     (case mkdir_exist_ok fresh t d of Inl err \<Rightarrow> Inl err | Inr t' \<Rightarrow> makedirs fresh t' ds)"

definition tar_extract :: "(node \<Rightarrow> entry) \<Rightarrow> member \<Rightarrow> tree \<Rightarrow> error + tree" where
  \<comment> \<open>\<open>tar.extract(member, path, set_attrs=False)\<close> into the tree at \<open>path\<close>: missing
      parent directories are created, the attributes of the member are not restored\<close>
  "tar_extract fresh m t =
     (let rel = segments (name (fst m)) in
      if rel = [] then (if ttype (fst m) = DIRTYPE then Inr t else Inl (OSError rel))
      else case makedirs fresh t (proper_prefixes rel) of
             Inl err \<Rightarrow> Inl err
           | Inr t1 \<Rightarrow>
               (case ttype (fst m) of
                  DIRTYPE \<Rightarrow> mkdir_exist_ok fresh t1 rel
                | REGTYPE \<Rightarrow> write_file fresh t1 rel (snd m)
                | _ \<Rightarrow>
                    (case map_of t1 rel of
                       None \<Rightarrow> Inr (t1 @ [(rel, fresh Other)])
                     | Some _ \<Rightarrow> Inl (OSError rel))))"

fun safe_extract :: "(node \<Rightarrow> entry) \<Rightarrow> member list \<Rightarrow> tree \<Rightarrow> error option \<times> tree" where
  \<comment> \<open>the exception raised, if any, and the destination directory as it is left\<close>
  "safe_extract fresh [] dest = (None, dest)"
| "safe_extract fresh (m # ms) dest =
     (if is_absolute (name (fst m)) then (Some (UnsafeAbsolute (name (fst m))), dest)
      else if ascii ''..'' \<in> set (parts (name (fst m)))
      then (Some (UnsafeTraversal (name (fst m))), dest)
      else if islink (fst m) then (Some (UnsafeLink (name (fst m))), dest)
      else case tar_extract fresh m dest of
             Inl err \<Rightarrow> (Some err, dest)
           | Inr dest' \<Rightarrow> safe_extract fresh ms dest')"

definition unsafe_member :: "member \<Rightarrow> bool" where
  \<comment> \<open>a member with an absolute path, a \<open>..\<close> part or a link type\<close>
  "unsafe_member m =
     (is_absolute (name (fst m)) \<or> ascii ''..'' \<in> set (parts (name (fst m))) \<or> islink (fst m))"

definition rejection :: "member \<Rightarrow> error" where
  \<comment> \<open>the rule an unsafe member triggers, in the order the rules are tried\<close>
  "rejection m =
     (if is_absolute (name (fst m)) then UnsafeAbsolute (name (fst m))
      else if ascii ''..'' \<in> set (parts (name (fst m))) then UnsafeTraversal (name (fst m))
      else UnsafeLink (name (fst m)))"

section \<open>verify: the strict verifier\<close>

definition parse_line :: "str \<Rightarrow> (str \<times> str) option" where
  \<comment> \<open>the body of the loading loop: the entry \<open>(p, dg)\<close> of a line, \<open>None\<close> where the
      loop continues without one\<close>
  "parse_line l =
     (let line = strip l in
      if line = [] then None
      else (case split_once (ascii ''  '') line of
              [dg, p] \<Rightarrow> Some (p, dg)
            | _ \<Rightarrow> None))"

fun load_lines :: "str list \<Rightarrow> (str \<times> str) list \<Rightarrow> (str \<times> str) list" where
  "load_lines [] expected = expected"
| "load_lines (l # ls) expected =
     (case parse_line l of
        None \<Rightarrow> load_lines ls expected
      | Some (p, dg) \<Rightarrow> load_lines ls (AList.update p dg expected))"

definition load_expected :: "bytes \<Rightarrow> error + (str \<times> str) list" where
  \<comment> \<open>step 1 of \<open>verify_manifest\<close>, from the bytes of the manifest file\<close>
  "load_expected content =
     (case utf8_decode content of
        None \<Rightarrow> Inl UnicodeDecodeError
      | Some s \<Rightarrow> Inr (load_lines (readlines [] s) []))"

fun walk ::
  "(bytes \<Rightarrow> str) \<Rightarrow> path \<Rightarrow> tree \<Rightarrow> (str \<times> str) list \<Rightarrow> path list \<Rightarrow> str list \<Rightarrow> error + str list"
  where
  \<comment> \<open>step 2: the walk over the extracted tree; the result is \<open>found_paths\<close>\<close>
  "walk H root t expected [] found_paths = Inr found_paths"
| "walk H root t expected (p # ps) found_paths =
     (if \<not> is_file root t p then walk H root t expected ps found_paths
      else if path_name p = DS_Store then walk H root t expected ps found_paths
      else case relative_to root p of
             None \<Rightarrow> Inl (NotRelative p)
           | Some rel \<Rightarrow>
               (let rel_str = str_of_path rel in
                if rel_str = str_of_path manifest_rel then walk H root t expected ps found_paths
                else (case map_of expected rel_str of
                        None \<Rightarrow> Inl (UnexpectedFile rel_str)
                      | Some want \<Rightarrow>
                          (case calculate_file_hash H root t p of
                             Inl err \<Rightarrow> Inl err
                           | Inr got \<Rightarrow>
                               if got \<noteq> want then Inl (HashMismatch rel_str want got)
                               else walk H root t expected ps (rel_str # found_paths)))))"

fun check_missing :: "str list \<Rightarrow> str list \<Rightarrow> error + bool" where
  \<comment> \<open>step 3: the keys of \<open>expected\<close>, in the order of their first insertion\<close>
  "check_missing [] found_paths = Inr True"
| "check_missing (p # ps) found_paths =
     (if p \<notin> set found_paths then Inl (MissingFile p) else check_missing ps found_paths)"

definition verify_manifest :: "(bytes \<Rightarrow> str) \<Rightarrow> path \<Rightarrow> tree \<Rightarrow> error + bool" where
  "verify_manifest H extracted_dir t =
     (case map_of t manifest_rel of
        None \<Rightarrow> Inl ManifestMissing
      | Some _ \<Rightarrow>
          (case read_bytes extracted_dir t (extracted_dir @ manifest_rel) of
             Inl err \<Rightarrow> Inl err
           | Inr content \<Rightarrow>
               (case load_expected content of
                  Inl err \<Rightarrow> Inl err
                | Inr expected \<Rightarrow>
                    (case walk H extracted_dir t expected (rglob extracted_dir t) [] of
                       Inl err \<Rightarrow> Inl err
                     | Inr found_paths \<Rightarrow> check_missing (map fst expected) found_paths))))"

definition is_ValueError :: "error \<Rightarrow> bool" where
  \<comment> \<open>the exceptions \<open>except ValueError\<close> catches\<close>
  "is_ValueError err =
     (case err of
        ManifestMissing \<Rightarrow> True | UnexpectedFile _ \<Rightarrow> True | HashMismatch _ _ _ \<Rightarrow> True
      | MissingFile _ \<Rightarrow> True | UnicodeDecodeError \<Rightarrow> True | _ \<Rightarrow> False)"

record verify_result =
  signature_verified :: "bool option"
  manifest_verified :: bool
  strict :: bool
  error :: "error option"

definition verify_bundle ::
  "(bytes \<Rightarrow> str) \<Rightarrow> (node \<Rightarrow> entry) \<Rightarrow> path \<Rightarrow> archive option \<Rightarrow> error + verify_result" where
  \<comment> \<open>\<open>verify_bundle(bundle_path, None, None, None, None)\<close>: no signature material, so
      the external verifier is not called. \<open>td\<close> is the temporary directory, the argument
      the file at \<open>bundle_path\<close>; \<open>Inl\<close> is an exception that leaves the function\<close>
  "verify_bundle H fresh td bundle =
     (let result = \<lparr>signature_verified = None, manifest_verified = False, strict = True,
                    error = None\<rparr>
      in case bundle of
           None \<Rightarrow> Inr (result\<lparr>error := Some BundleNotFound\<rparr>)
         | Some tar \<Rightarrow>
             (case safe_extract fresh (members tar) [] of
                (Some e, _) \<Rightarrow> Inr (result\<lparr>error := Some (FailedToExtract e)\<rparr>)
              | (None, extracted) \<Rightarrow>
                  (case verify_manifest H td extracted of
                     Inr _ \<Rightarrow> Inr (result\<lparr>manifest_verified := True\<rparr>)
                   | Inl e \<Rightarrow>
                       if is_ValueError e
                       then Inr (result\<lparr>manifest_verified := False, error := Some e\<rparr>)
                       else Inl e)))"

section \<open>pack: from the staged tree to the bundle\<close>

text \<open>
  \<open>create_bundle\<close> fills the staging directory with the files its collaborators
  deliver, then generates the manifest over it and writes the archive. The staged tree
  is the input here; signing is off. The last argument is the file at \<open>bundle_path\<close>
  before the call, the second component of the result the file there after it.
\<close>

record bundle_result =
  file_count :: nat
  source_date_epoch :: int

definition create_bundle ::
  "(bytes \<Rightarrow> str) \<Rightarrow> (str \<Rightarrow> int option) \<Rightarrow> environ \<Rightarrow> int \<Rightarrow> (node \<Rightarrow> entry) \<Rightarrow> path \<Rightarrow> tree
     \<Rightarrow> archive option \<Rightarrow> (error + bundle_result) \<times> archive option" where
  "create_bundle H to_int env now fresh stage_dir staged out =
     (case generate_manifest H fresh stage_dir staged of
        Inl err \<Rightarrow> (Inl err, out)
      | Inr t \<Rightarrow>
          (case write_bundle to_int env now stage_dir t of
             (Some err, a) \<Rightarrow> (Inl err, Some a)
           | (None, a) \<Rightarrow>
               (Inr \<lparr>file_count = length (sort (rglob stage_dir t)),
                     source_date_epoch = get_source_date_epoch to_int env\<rparr>, Some a)))"

section \<open>Notions used in the properties\<close>

definition manifest_entries :: "path \<Rightarrow> tree \<Rightarrow> (str \<times> str) list" where
  \<comment> \<open>what the embedded manifest of a tree lists: the dictionary \<open>expected\<close> that
      \<open>verify_manifest\<close> loads, empty when the manifest cannot be read\<close>
  "manifest_entries root t =
     (case read_bytes root t (root @ manifest_rel) of
        Inl _ \<Rightarrow> []
      | Inr content \<Rightarrow> (case load_expected content of Inl _ \<Rightarrow> [] | Inr expected \<Rightarrow> expected))"

definition load_manifest :: "path \<Rightarrow> tree \<Rightarrow> error + (str \<times> str) list" where
  \<comment> \<open>the first steps of \<open>verify_manifest\<close>: locate the manifest and load \<open>expected\<close>\<close>
  "load_manifest root t =
     (case map_of t manifest_rel of
        None \<Rightarrow> Inl ManifestMissing
      | Some _ \<Rightarrow>
          (case read_bytes root t (root @ manifest_rel) of
             Inl err \<Rightarrow> Inl err
           | Inr content \<Rightarrow> load_expected content))"

definition manifest_skips :: "path \<Rightarrow> bool" where
  \<comment> \<open>the relative paths that the loop of \<open>generate_manifest\<close> passes over\<close>
  "manifest_skips rel =
     (case rel of
        [] \<Rightarrow> False
      | part0 # _ \<Rightarrow> part0 = ascii ''manifest'' \<and> path_name rel = ascii ''sha256sum.txt'')"

definition sorted_traversal :: "tree \<Rightarrow> path list" where
  \<comment> \<open>the order the specification gives the members: the relative paths of the tree
      that the walk reaches, sorted part by part, without the entries named
      \<open>.DS_Store\<close>\<close>
  "sorted_traversal t =
     filter (\<lambda>p. path_name p \<noteq> DS_Store) (sort (walked t (map fst t)))"

definition is_under :: "path \<Rightarrow> path \<Rightarrow> bool" where
  \<comment> \<open>\<open>p\<close> is the directory \<open>d\<close> or lies below it\<close>
  "is_under d p = (take (length d) p = d)"

definition staged :: "entry \<Rightarrow> node \<times> nat \<times> bool" where
  \<comment> \<open>what the archive keeps of an entry: its type and bytes, its permission bits, and
      whether it can be read\<close>
  "staged e = (e_node e, e_mode e, e_readable e)"

section \<open>Sample data\<close>

definition sha256_empty :: str where
  \<comment> \<open>the SHA-256 digest of the empty byte string\<close>
  "sha256_empty = ascii ''e3b0c44298fc1c149afbf4c8996fb92427ae41e4649b934ca495991b7852b855''"

definition H_empty :: "bytes \<Rightarrow> str" where
  \<comment> \<open>SHA-256 on trees whose files are all empty\<close>
  "H_empty c = sha256_empty"

definition plain :: "node \<Rightarrow> entry" where
  \<comment> \<open>a node as user 1000 creates it under umask 022\<close>
  "plain n =
     \<lparr>e_node = n, e_mode = (case n of Dir \<Rightarrow> 493 | _ \<Rightarrow> 420), e_uid = 1000, e_gid = 1000,
      e_uname = ascii ''dev'', e_gname = ascii ''dev'', e_mtime = 67890, e_readable = True\<rparr>"

definition env_1700 :: environ where
  "env_1700 = [ascii ''SOURCE_DATE_EPOCH'' \<mapsto> ascii ''1700000000'']"

definition env_bad :: environ where
  "env_bad = [ascii ''SOURCE_DATE_EPOCH'' \<mapsto> ascii ''yesterday'']"

definition tmp_a :: path where
  "tmp_a = [ascii ''/'', ascii ''tmp'', ascii ''tmpa1'']"

definition tmp_b :: path where
  "tmp_b = [ascii ''/'', ascii ''tmp'', ascii ''tmpb2'']"

definition tree_one :: tree where
  \<comment> \<open>one empty file \<open>a.txt\<close>\<close>
  "tree_one = [([ascii ''a.txt''], plain (File []))]"

definition tree_ds :: tree where
  \<comment> \<open>a staged tree with \<open>artifacts/.DS_Store\<close>, as copied from a macOS directory\<close>
  "tree_ds =
     [([ascii ''artifacts''], plain Dir),
      ([ascii ''artifacts'', ascii ''.DS_Store''], plain (File []))]"

definition member_a :: member where
  \<comment> \<open>an empty regular file \<open>a.txt\<close>\<close>
  "member_a =
     (\<lparr>name = ascii ''a.txt'', ttype = REGTYPE, mode = 420, uid = 0, gid = 0, uname = [],
       gname = [], mtime = 0, tsize = 0, linkname = []\<rparr>, [])"

definition member_link :: member where
  \<comment> \<open>a symbolic link \<open>bad_link\<close>\<close>
  "member_link =
     (\<lparr>name = ascii ''bad_link'', ttype = SYMTYPE, mode = 511, uid = 0, gid = 0, uname = [],
       gname = [], mtime = 0, tsize = 0, linkname = ascii ''artifacts/data.txt''\<rparr>, [])"

definition tree_unreadable :: tree where
  \<comment> \<open>\<open>b.txt\<close> cannot be opened, \<open>a.txt\<close> can\<close>
  "tree_unreadable =
     [([ascii ''b.txt''], (plain (File []))\<lparr>e_readable := False\<rparr>),
      ([ascii ''a.txt''], plain (File []))]"

definition manifest_dup :: bytes where
  \<comment> \<open>two entries for \<open>x.txt\<close>, with a blank line and a line without separator between\<close>
  "manifest_dup =
     ''aa  x.txt'' @ [CHR 0x0A, CHR 0x0A] @ ''broken'' @ [CHR 0x0D, CHR 0x0A] @ ''bb  x.txt''
       @ [CHR 0x0A]"

definition manifest_ok :: bytes where
  \<comment> \<open>the manifest of a tree whose only file is the empty \<open>a.txt\<close>\<close>
  "manifest_ok =
     ''e3b0c44298fc1c149afbf4c8996fb92427ae41e4649b934ca495991b7852b855  a.txt'' @ [CHR 0x0A]"

definition tree_ok_head :: tree where
  "tree_ok_head = [([ascii ''manifest''], plain Dir), (manifest_rel, plain (File manifest_ok))]"

definition tree_ok_tail :: tree where
  "tree_ok_tail = [([ascii ''a.txt''], plain (File []))]"

definition tree_one_664 :: tree where
  \<comment> \<open>\<open>tree_one\<close> as created under umask 002\<close>
  "tree_one_664 = [([ascii ''a.txt''], (plain (File []))\<lparr>e_mode := 436\<rparr>)]"

definition tree_two :: tree where
  \<comment> \<open>\<open>file1.txt\<close> and \<open>subdir/file2.txt\<close>, enumerated deepest first\<close>
  "tree_two =
     [([ascii ''subdir'', ascii ''file2.txt''], plain (File [])),
      ([ascii ''subdir''], plain Dir),
      ([ascii ''file1.txt''], plain (File []))]"

definition tree_two_other :: tree where
  \<comment> \<open>the same files on another machine: another owner, other times, another order\<close>
  "tree_two_other =
     [([ascii ''file1.txt''], (plain (File []))\<lparr>e_uid := 0, e_gid := 0, e_uname := ascii ''root'',
         e_gname := ascii ''root'', e_mtime := 22222\<rparr>),
      ([ascii ''subdir''], (plain Dir)\<lparr>e_uid := 0, e_gid := 0, e_uname := ascii ''root'',
         e_gname := ascii ''root'', e_mtime := 11111\<rparr>),
      ([ascii ''subdir'', ascii ''file2.txt''], (plain (File []))\<lparr>e_uid := 0, e_gid := 0,
         e_uname := ascii ''root'', e_gname := ascii ''root'', e_mtime := 11111\<rparr>)]"

definition env_1700_ci :: environ where
  \<comment> \<open>the same \<open>SOURCE_DATE_EPOCH\<close> in another environment\<close>
  "env_1700_ci = env_1700(ascii ''GITHUB_ACTOR'' \<mapsto> ascii ''bot'')"

definition tree_nested_unreadable :: tree where
  \<comment> \<open>\<open>a.txt\<close> and a file \<open>manifest/sub/sha256sum.txt\<close> that cannot be opened\<close>
  "tree_nested_unreadable =
     [([ascii ''manifest''], plain Dir),
      ([ascii ''manifest'', ascii ''sub''], plain Dir),
      ([ascii ''manifest'', ascii ''sub'', ascii ''sha256sum.txt''],
       (plain (File []))\<lparr>e_readable := False\<rparr>),
      ([ascii ''a.txt''], plain (File []))]"

definition tree_nested :: tree where
  \<comment> \<open>\<open>a.txt\<close> and a file \<open>manifest/sub/sha256sum.txt\<close>, both empty\<close>
  "tree_nested =
     [([ascii ''manifest''], plain Dir),
      ([ascii ''manifest'', ascii ''sub''], plain Dir),
      ([ascii ''manifest'', ascii ''sub'', ascii ''sha256sum.txt''], plain (File [])),
      ([ascii ''a.txt''], plain (File []))]"

section \<open>Properties of the archive builder\<close>

lemma add_all_gz:
  "gz_filename (snd (add_all flt root t ps a)) = gz_filename a \<and>
   gz_mtime (snd (add_all flt root t ps a)) = gz_mtime a"
  by (induction ps arbitrary: a) (auto split: option.splits sum.splits)

lemma add_all_mtime:
  "\<forall>ti. mtime (flt ti) = E \<Longrightarrow> \<forall>m\<in>set (members a). mtime (fst m) = E \<Longrightarrow>
   \<forall>m\<in>set (members (snd (add_all flt root t ps a))). mtime (fst m) = E"
proof (induction ps arbitrary: a)
  case Nil
  then show ?case by simp
next
  case (Cons p ps)
  show ?case
  proof (cases "path_name p = DS_Store")
    case True
    then show ?thesis using Cons by simp
  next
    case False
    show ?thesis
    proof (cases "relative_to root p")
      case None
      then show ?thesis using False Cons.prems by simp
    next
      case (Some rel)
      show ?thesis
      proof (cases "tar_add flt root t p (str_of_path rel)")
        case (Inl err)
        then show ?thesis using False Some Cons.prems by simp
      next
        case (Inr m)
        then have "mtime (fst m) = E"
          using Cons.prems(1)
          by (auto simp: tar_add_def Let_def split: option.splits node.splits if_splits)
        then have "\<forall>m'\<in>set (members (a\<lparr>members := members a @ [m]\<rparr>)). mtime (fst m') = E"
          using Cons.prems(2) by auto
        from Cons.IH[OF Cons.prems(1) this] show ?thesis using False Some Inr by simp
      qed
    qed
  qed
qed

lemma normalize_mtime:
  "mtime (normalize_tarinfo to_int env ti) = get_source_date_epoch to_int env"
  by (simp add: normalize_tarinfo_def)

lemma write_bundle_header:
  "gz_filename (snd (write_bundle to_int env now stage_dir t)) = [] \<and>
   gz_mtime (snd (write_bundle to_int env now stage_dir t)) = 0 \<and>
   (\<forall>m\<in>set (members (snd (write_bundle to_int env now stage_dir t))).
      mtime (fst m) = get_source_date_epoch to_int env)"
proof -
  let ?g = "gzip_open [] (Some 0) now"
  let ?r = "add_all (normalize_tarinfo to_int env) stage_dir t (sort (rglob stage_dir t)) ?g"
  have g: "gz_filename (snd ?r) = [] \<and> gz_mtime (snd ?r) = 0"
    using add_all_gz[of "normalize_tarinfo to_int env" stage_dir t "sort (rglob stage_dir t)" ?g]
    by (simp add: gzip_open_def)
  have m: "\<forall>m\<in>set (members (snd ?r)). mtime (fst m) = get_source_date_epoch to_int env"
    by (rule add_all_mtime) (simp_all add: normalize_mtime gzip_open_def)
  have w: "write_bundle to_int env now stage_dir t =
      (case ?r of (Some err, a) \<Rightarrow> (Some err, a) | (None, a) \<Rightarrow> (None, a\<lparr>complete := True\<rparr>))"
    by (simp add: write_bundle_def Let_def)
  show ?thesis
    using g m unfolding w by (cases ?r) (auto split: option.splits)
qed

lemmas sample_defs =
  ascii_def plain_def env_1700_def env_bad_def tmp_a_def tmp_b_def tree_one_def tree_ds_def
  H_empty_def sha256_empty_def

lemmas pack_defs =
  write_bundle_def gzip_open_def rglob_def walked_def reachable_def listable_def
  proper_prefixes_def path_name_def DS_Store_def relative_to_def
  tar_add_def gettarinfo_def normalize_tarinfo_def get_source_date_epoch_def ascii_int_def
  str_of_path_def Let_def lstat_def

subsection \<open>The compression wrapper\<close>

text \<open>
  C7, as the code has it: the gzip wrapper carries no file name and its timestamp field is
  the constant 0, whatever the reproducibility timestamp is, while every archive member
  carries the reproducibility timestamp. The wrapper timestamp equals the members' one
  only when that is 0; it never holds the time of the build.
\<close>

theorem gzip_wrapper_fixed:
  "gz_filename (snd (write_bundle to_int env now stage_dir t)) = [] \<and>
   gz_mtime (snd (write_bundle to_int env now stage_dir t)) = 0 \<and>
   (\<forall>m\<in>set (members (snd (write_bundle to_int env now stage_dir t))).
      mtime (fst m) = get_source_date_epoch to_int env)"
  by (rule write_bundle_header)

theorem gzip_wrapper_fixed_witness:
  "members (snd (write_bundle ascii_int env_1700 1712345678 tmp_a tree_one)) \<noteq> [] \<and>
   gz_mtime (snd (write_bundle ascii_int env_1700 1712345678 tmp_a tree_one)) = 0 \<and>
   mtime (fst (hd (members (snd (write_bundle ascii_int env_1700 1712345678 tmp_a tree_one)))))
     = 1700000000"
proof -
  have ne: "members (snd (write_bundle ascii_int env_1700 1712345678 tmp_a tree_one)) \<noteq> []"
    by (simp add: pack_defs sample_defs)
  have ep: "get_source_date_epoch ascii_int env_1700 = 1700000000"
    by (simp add: get_source_date_epoch_def ascii_int_def sample_defs)
  have "hd (members (snd (write_bundle ascii_int env_1700 1712345678 tmp_a tree_one)))
          \<in> set (members (snd (write_bundle ascii_int env_1700 1712345678 tmp_a tree_one)))"
    using ne by simp
  then show ?thesis
    using gzip_wrapper_fixed[of ascii_int env_1700 1712345678 tmp_a tree_one] ne ep by auto
qed

text \<open>
  With \<open>SOURCE_DATE_EPOCH=1700000000\<close> the members are stamped 1700000000 and the
  wrapper 0: the wrapper does not use the members' timestamp.
\<close>

theorem gzip_wrapper_not_epoch:
  "gz_mtime (snd (write_bundle ascii_int env_1700 1712345678 tmp_a tree_one))
     \<noteq> get_source_date_epoch ascii_int env_1700 \<and>
   map (\<lambda>m. mtime (fst m)) (members (snd (write_bundle ascii_int env_1700 1712345678 tmp_a tree_one)))
     = [get_source_date_epoch ascii_int env_1700]"
  by (simp add: pack_defs sample_defs)

subsection \<open>The default of the reproducibility timestamp\<close>

lemma normalize_tarinfo_epoch:
  "get_source_date_epoch to_int env = get_source_date_epoch to_int env' \<Longrightarrow>
   normalize_tarinfo to_int env = normalize_tarinfo to_int env'"
  by (rule ext) (simp add: normalize_tarinfo_def)

lemma epoch_zero_env:
  "to_int (ascii ''0'') = Some 0 \<Longrightarrow>
   get_source_date_epoch to_int (env(ascii ''SOURCE_DATE_EPOCH'' \<mapsto> ascii ''0'')) = 0"
  by (simp add: get_source_date_epoch_def)

text \<open>
  C10: when \<open>SOURCE_DATE_EPOCH\<close> is unset, or set to a value \<open>int\<close> rejects, the
  reproducibility timestamp is 0: \<open>get_source_date_epoch\<close> returns 0 instead of raising,
  so \<open>created_at_epoch\<close>, the timestamp of every archive member and the gzip timestamp
  are 0, and the archive step does exactly what it does under \<open>SOURCE_DATE_EPOCH=0\<close>.
  (\<open>int("0") = 0\<close> is what is assumed of the builtin.)
\<close>

theorem epoch_defaults_to_zero:
  assumes "to_int (ascii ''0'') = Some 0"
    and "env (ascii ''SOURCE_DATE_EPOCH'') = None
         \<or> (\<exists>v. env (ascii ''SOURCE_DATE_EPOCH'') = Some v \<and> to_int v = None)"
  shows "get_source_date_epoch to_int env = 0 \<and>
         created_at_epoch (metadata_json to_int env ver) = 0 \<and>
         gz_mtime (snd (write_bundle to_int env now stage_dir t)) = 0 \<and>
         (\<forall>m\<in>set (members (snd (write_bundle to_int env now stage_dir t))). mtime (fst m) = 0) \<and>
         write_bundle to_int env now stage_dir t
           = write_bundle to_int (env(ascii ''SOURCE_DATE_EPOCH'' \<mapsto> ascii ''0'')) now stage_dir t"
proof -
  have z: "get_source_date_epoch to_int env = 0"
    using assms by (auto simp: get_source_date_epoch_def)
  have n: "normalize_tarinfo to_int env
             = normalize_tarinfo to_int (env(ascii ''SOURCE_DATE_EPOCH'' \<mapsto> ascii ''0''))"
    using epoch_zero_env[of to_int env] assms(1)
    by (intro normalize_tarinfo_epoch) (simp add: z)
  have w: "write_bundle to_int env now stage_dir t
             = write_bundle to_int (env(ascii ''SOURCE_DATE_EPOCH'' \<mapsto> ascii ''0'')) now stage_dir t"
    by (simp add: write_bundle_def n)
  have c: "created_at_epoch (metadata_json to_int env ver) = 0"
    by (simp add: metadata_json_def z)
  show ?thesis
    using z c w write_bundle_header[of to_int env now stage_dir t] by simp
qed

theorem epoch_defaults_to_zero_witness:
  "ascii_int (ascii ''0'') = Some 0 \<and>
   env_bad (ascii ''SOURCE_DATE_EPOCH'') = Some (ascii ''yesterday'') \<and>
   ascii_int (ascii ''yesterday'') = None \<and>
   get_source_date_epoch ascii_int env_bad = 0 \<and>
   created_at_epoch (metadata_json ascii_int env_bad (ascii ''1.0'')) = 0 \<and>
   gz_mtime (snd (write_bundle ascii_int env_bad 1712345678 tmp_a tree_one)) = 0 \<and>
   members (snd (write_bundle ascii_int env_bad 1712345678 tmp_a tree_one)) \<noteq> [] \<and>
   mtime (fst (hd (members (snd (write_bundle ascii_int env_bad 1712345678 tmp_a tree_one))))) = 0 \<and>
   (Map.empty :: environ) (ascii ''SOURCE_DATE_EPOCH'') = None \<and>
   get_source_date_epoch ascii_int Map.empty = 0"
proof -
  have h1: "ascii_int (ascii ''0'') = Some 0"
    by (simp add: ascii_int_def ascii_def)
  have h2: "env_bad (ascii ''SOURCE_DATE_EPOCH'') = Some (ascii ''yesterday'')"
    by (simp add: env_bad_def)
  have h3: "ascii_int (ascii ''yesterday'') = None"
    by (simp add: ascii_int_def ascii_def)
  have h4: "env_bad (ascii ''SOURCE_DATE_EPOCH'') = None
         \<or> (\<exists>v. env_bad (ascii ''SOURCE_DATE_EPOCH'') = Some v \<and> ascii_int v = None)"
    using h2 h3 by simp
  have h5: "(Map.empty :: environ) (ascii ''SOURCE_DATE_EPOCH'') = None
         \<or> (\<exists>v. (Map.empty :: environ) (ascii ''SOURCE_DATE_EPOCH'') = Some v \<and> ascii_int v = None)"
    by simp
  have ne: "members (snd (write_bundle ascii_int env_bad 1712345678 tmp_a tree_one)) \<noteq> []"
    by (simp add: pack_defs sample_defs)
  have r1: "get_source_date_epoch ascii_int env_bad = 0 \<and>
      created_at_epoch (metadata_json ascii_int env_bad (ascii ''1.0'')) = 0 \<and>
      gz_mtime (snd (write_bundle ascii_int env_bad 1712345678 tmp_a tree_one)) = 0 \<and>
      (\<forall>m\<in>set (members (snd (write_bundle ascii_int env_bad 1712345678 tmp_a tree_one))).
         mtime (fst m) = 0)"
    using epoch_defaults_to_zero[of ascii_int env_bad "ascii ''1.0''" 1712345678 tmp_a tree_one]
      h1 h4 by blast
  have r2: "get_source_date_epoch ascii_int Map.empty = 0"
    using epoch_defaults_to_zero[of ascii_int Map.empty "ascii ''1.0''" 1712345678 tmp_a tree_one]
      h1 h5 by blast
  have "hd (members (snd (write_bundle ascii_int env_bad 1712345678 tmp_a tree_one)))
          \<in> set (members (snd (write_bundle ascii_int env_bad 1712345678 tmp_a tree_one)))"
    using ne by simp
  then show ?thesis
    using r1 r2 h1 h2 h3 ne by auto
qed

subsection \<open>Paths below a root\<close>

lemma relative_to_append [simp]: "relative_to root (root @ rel) = Some rel"
  by (simp add: relative_to_def)

lemma path_name_append: "rel \<noteq> [] \<Longrightarrow> path_name (root @ rel) = path_name rel"
  by (cases rel rule: rev_cases) (auto simp: path_name_def)

lemma lstat_append [simp]: "lstat root t (root @ rel) = map_of t rel"
  by (simp add: lstat_def)

lemma rglob_mem:
  "map_of t rel = Some e \<Longrightarrow> rel \<noteq> [] \<Longrightarrow> reachable t rel \<Longrightarrow> root @ rel \<in> set (rglob root t)"
  by (auto simp: rglob_def walked_def dest: map_of_SomeD
      intro!: image_eqI[where x=rel] image_eqI[where x="(rel, e)"])

subsection \<open>An unreadable file in the archive step\<close>

lemma add_all_complete: "complete (snd (add_all flt root t ps a)) = complete a"
  by (induction ps arbitrary: a) (auto split: option.splits sum.splits)

lemma add_all_fails:
  "p \<in> set ps \<Longrightarrow> path_name p \<noteq> DS_Store \<Longrightarrow> relative_to root p = Some rel \<Longrightarrow>
   tar_add flt root t p (str_of_path rel) = Inl e \<Longrightarrow> fst (add_all flt root t ps a) \<noteq> None"
  by (induction ps arbitrary: a) (auto split: option.splits sum.splits)

lemma write_bundle_unreadable:
  assumes "map_of t rel = Some e" and "rel \<noteq> []" and "reachable t rel"
    and "path_name rel \<noteq> DS_Store" and "e_node e = File c" and "\<not> e_readable e"
  shows "fst (write_bundle to_int env now stage_dir t) \<noteq> None \<and>
         \<not> complete (snd (write_bundle to_int env now stage_dir t))"
proof -
  let ?flt = "normalize_tarinfo to_int env"
  let ?g = "gzip_open [] (Some 0) now"
  let ?r = "add_all ?flt stage_dir t (sort (rglob stage_dir t)) ?g"
  have "tar_add ?flt stage_dir t (stage_dir @ rel) (str_of_path rel)
          = Inl (PermissionError (stage_dir @ rel))"
    using assms by (simp add: tar_add_def)
  moreover have "stage_dir @ rel \<in> set (sort (rglob stage_dir t))"
    using rglob_mem[OF assms(1,2,3)] by simp
  ultimately have f: "fst ?r \<noteq> None"
    using assms(2,4)
      add_all_fails[of "stage_dir @ rel" "sort (rglob stage_dir t)" stage_dir rel ?flt t]
    by (simp add: path_name_append)
  have c: "\<not> complete (snd ?r)"
    by (simp add: add_all_complete gzip_open_def)
  show ?thesis
    using f c by (cases ?r) (auto simp: write_bundle_def Let_def split: option.splits)
qed

section \<open>Properties of the safe extractor\<close>

lemmas extract_defs =
  is_absolute_def segments_def parts_def islink_def proper_prefixes_def tar_extract_def
  mkdir_exist_ok_def write_file_def unsafe_member_def rejection_def

lemma safe_extract_append:
  "safe_extract fresh pre dest = (None, dest') \<Longrightarrow>
   safe_extract fresh (pre @ ms) dest = safe_extract fresh ms dest'"
  by (induction pre arbitrary: dest) (auto split: if_splits sum.splits)

lemma safe_extract_unsafe:
  "unsafe_member m \<Longrightarrow> safe_extract fresh (m # ms) dest = (Some (rejection m), dest)"
  by (auto simp: unsafe_member_def rejection_def)

lemma safe_extract_aborts:
  "unsafe_member bad \<Longrightarrow> fst (safe_extract fresh (pre @ bad # post) dest) \<noteq> None"
  by (induction pre arbitrary: dest) (auto simp: unsafe_member_def split: sum.splits)

text \<open>
  C3, as the code has it: an archive with a member that has an absolute path, a \<open>..\<close>
  part or a link type is never extracted to the end: extraction stops with an exception.
  When the members before the first such member were extracted without an error, the
  exception names that member and the rule it triggered, and nothing of that member or
  of any later one is written; the members before it stay in the destination directory
  as they were extracted (each member is checked just before it is extracted).
\<close>

theorem safe_extract_rejects_unsafe:
  assumes "unsafe_member bad"
  shows "fst (safe_extract fresh (pre @ bad # post) dest) \<noteq> None \<and>
         (\<forall>dest'. safe_extract fresh pre dest = (None, dest') \<longrightarrow>
            safe_extract fresh (pre @ bad # post) dest = (Some (rejection bad), dest')) \<and>
         rejection bad \<in> {UnsafeAbsolute (name (fst bad)), UnsafeTraversal (name (fst bad)),
                           UnsafeLink (name (fst bad))}"
proof (intro conjI allI impI)
  show "fst (safe_extract fresh (pre @ bad # post) dest) \<noteq> None"
    using assms by (rule safe_extract_aborts)
next
  fix dest' assume "safe_extract fresh pre dest = (None, dest')"
  then have "safe_extract fresh (pre @ bad # post) dest = safe_extract fresh (bad # post) dest'"
    by (rule safe_extract_append)
  then show "safe_extract fresh (pre @ bad # post) dest = (Some (rejection bad), dest')"
    using safe_extract_unsafe[OF assms] by simp
next
  show "rejection bad \<in> {UnsafeAbsolute (name (fst bad)), UnsafeTraversal (name (fst bad)),
                           UnsafeLink (name (fst bad))}"
    by (simp add: rejection_def)
qed

theorem safe_extract_rejects_unsafe_witness:
  "unsafe_member member_link \<and>
   safe_extract plain [member_a] [] = (None, [([ascii ''a.txt''], plain (File []))]) \<and>
   safe_extract plain ([member_a] @ member_link # []) []
     = (Some (UnsafeLink (ascii ''bad_link'')), [([ascii ''a.txt''], plain (File []))])"
proof -
  have u: "unsafe_member member_link"
    by (simp add: extract_defs member_link_def ascii_def)
  have p: "safe_extract plain [member_a] [] = (None, [([ascii ''a.txt''], plain (File []))])"
    by (simp add: extract_defs member_a_def ascii_def plain_def)
  have r: "rejection member_link = UnsafeLink (ascii ''bad_link'')"
    by (simp add: extract_defs member_link_def ascii_def)
  have "\<forall>dest'. safe_extract plain [member_a] [] = (None, dest') \<longrightarrow>
          safe_extract plain ([member_a] @ member_link # []) []
            = (Some (rejection member_link), dest')"
    using safe_extract_rejects_unsafe[OF u, of plain "[member_a]" "[]" "[]"] by blast
  then have "safe_extract plain ([member_a] @ member_link # []) []
               = (Some (rejection member_link), [([ascii ''a.txt''], plain (File []))])"
    using p by blast
  then show ?thesis
    using u p r by simp
qed

text \<open>
  A regular file followed by a symbolic link: the link is refused, and the file is in
  the destination directory when extraction stops.
\<close>

theorem safe_extract_leaves_partial:
  "safe_extract plain [member_a, member_link] []
     = (Some (UnsafeLink (ascii ''bad_link'')), [([ascii ''a.txt''], plain (File []))])"
  by (simp add: extract_defs member_a_def member_link_def ascii_def plain_def)

section \<open>Properties of the manifest reader\<close>

lemmas parse_defs =
  load_expected_def utf8_decode_def is_cont_def parse_line_def strip_def isspace_def

lemma load_lines_map_of:
  "map_of (load_lines ls ex) = map_of (rev (List.map_filter parse_line ls) @ ex)"
proof (induction ls arbitrary: ex)
  case Nil
  then show ?case by (simp add: List.map_filter_simps)
next
  case (Cons l ls)
  show ?case
  proof (cases "parse_line l")
    case None
    then show ?thesis using Cons by (simp add: List.map_filter_simps)
  next
    case (Some pd)
    obtain p dg where pd: "pd = (p, dg)" by (cases pd)
    have "map_of (load_lines (l # ls) ex)
            = map_of (rev (List.map_filter parse_line ls) @ AList.update p dg ex)"
      using Some pd Cons by simp
    also have "\<dots> = map_of (rev (List.map_filter parse_line ls) @ (p, dg) # ex)"
      by (simp add: update_conv')
    finally show ?thesis using Some pd by (simp add: List.map_filter_simps)
  qed
qed

lemma load_lines_keys:
  "fst ` set (load_lines ls ex) = fst ` set (List.map_filter parse_line ls) \<union> fst ` set ex"
proof -
  have "dom (map_of (load_lines ls ex))
          = dom (map_of (rev (List.map_filter parse_line ls) @ ex))"
    by (simp only: load_lines_map_of)
  then show ?thesis by (simp add: dom_map_of_conv_image_fst Un_commute)
qed

lemma map_of_last_wins:
  "es = xs @ (p, dg) # ys \<Longrightarrow> p \<notin> fst ` set ys \<Longrightarrow> map_of (rev es) p = Some dg"
  by (simp add: map_add_def map_of_eq_None_iff[THEN iffD2] split: option.splits)

text \<open>
  C9, as the code has it: the manifest is read as UTF-8 text, and bytes that are not
  well-formed UTF-8 raise \<open>UnicodeDecodeError\<close>. On every other input the reader
  returns a mapping and never raises: its keys are the paths of the well-formed lines
  (blank lines and lines without the two-space separator leave no trace), and a path
  that several well-formed lines give keeps the digest of the last of them.
\<close>

theorem load_expected_last_wins:
  "(utf8_decode content = None \<longrightarrow> load_expected content = Inl UnicodeDecodeError) \<and>
   (\<forall>s. utf8_decode content = Some s \<longrightarrow>
      (\<exists>expected. load_expected content = Inr expected \<and>
         fst ` set expected = fst ` set (List.map_filter parse_line (readlines [] s)) \<and>
         (\<forall>xs p dg ys. List.map_filter parse_line (readlines [] s) = xs @ (p, dg) # ys \<and>
              p \<notin> fst ` set ys \<longrightarrow> map_of expected p = Some dg)))"
proof (intro conjI allI impI)
  assume "utf8_decode content = None"
  then show "load_expected content = Inl UnicodeDecodeError" by (simp add: load_expected_def)
next
  fix s assume d: "utf8_decode content = Some s"
  let ?ex = "load_lines (readlines [] s) []"
  have 1: "load_expected content = Inr ?ex" using d by (simp add: load_expected_def)
  have 2: "fst ` set ?ex = fst ` set (List.map_filter parse_line (readlines [] s))"
    by (simp add: load_lines_keys)
  have 3: "\<forall>xs p dg ys. List.map_filter parse_line (readlines [] s) = xs @ (p, dg) # ys \<and>
              p \<notin> fst ` set ys \<longrightarrow> map_of ?ex p = Some dg"
  proof (intro allI impI)
    fix xs p dg ys
    assume a: "List.map_filter parse_line (readlines [] s) = xs @ (p, dg) # ys
                 \<and> p \<notin> fst ` set ys"
    have "map_of ?ex p = map_of (rev (List.map_filter parse_line (readlines [] s))) p"
      by (simp only: load_lines_map_of append_Nil2)
    also have "\<dots> = Some dg"
      using a by (intro map_of_last_wins[of _ xs p dg ys]) simp_all
    finally show "map_of ?ex p = Some dg" .
  qed
  show "\<exists>expected. load_expected content = Inr expected \<and>
         fst ` set expected = fst ` set (List.map_filter parse_line (readlines [] s)) \<and>
         (\<forall>xs p dg ys. List.map_filter parse_line (readlines [] s) = xs @ (p, dg) # ys \<and>
              p \<notin> fst ` set ys \<longrightarrow> map_of expected p = Some dg)"
    using 1 2 3 by blast
qed

theorem load_expected_last_wins_witness:
  "utf8_decode manifest_dup
     = Some (ascii ''aa  x.txt'' @ [10, 10] @ ascii ''broken'' @ [13, 10] @ ascii ''bb  x.txt''
         @ [10]) \<and>
   List.map_filter parse_line
     (readlines [] (ascii ''aa  x.txt'' @ [10, 10] @ ascii ''broken'' @ [13, 10]
        @ ascii ''bb  x.txt'' @ [10]))
     = [(ascii ''x.txt'', ascii ''aa'')] @ (ascii ''x.txt'', ascii ''bb'') # [] \<and>
   (\<exists>expected. load_expected manifest_dup = Inr expected \<and>
      map_of expected (ascii ''x.txt'') = Some (ascii ''bb''))"
proof -
  let ?s = "ascii ''aa  x.txt'' @ [10, 10] @ ascii ''broken'' @ [13, 10] @ ascii ''bb  x.txt''
              @ [10]"
  have d: "utf8_decode manifest_dup = Some ?s"
    by (simp add: utf8_decode_def manifest_dup_def ascii_def)
  have e: "List.map_filter parse_line (readlines [] ?s)
             = [(ascii ''x.txt'', ascii ''aa'')] @ (ascii ''x.txt'', ascii ''bb'') # []"
    by (simp add: parse_defs ascii_def List.map_filter_simps)
  obtain expected where x: "load_expected manifest_dup = Inr expected"
    and l: "\<forall>xs p dg ys. List.map_filter parse_line (readlines [] ?s) = xs @ (p, dg) # ys \<and>
              p \<notin> fst ` set ys \<longrightarrow> map_of expected p = Some dg"
    using load_expected_last_wins[of manifest_dup] d by blast
  have "map_of expected (ascii ''x.txt'') = Some (ascii ''bb'')"
    using l e by (metis empty_iff image_empty list.set(1))
  then show ?thesis
    using d e x by blast
qed

text \<open>A manifest file holding the single byte \<open>0xFF\<close> makes the reader raise.\<close>

theorem load_expected_raises:
  "load_expected [CHR 0xFF] = Inl UnicodeDecodeError"
  by (simp add: load_expected_def utf8_decode_def)

section \<open>Properties of the strict verifier\<close>

lemma map_of_insert_new:
  "map_of (xs @ ys) p = None \<Longrightarrow> q \<noteq> p \<Longrightarrow> map_of (xs @ (p, e) # ys) q = map_of (xs @ ys) q"
  by (simp add: map_add_def split: option.splits)

lemma map_of_insert_new_self:
  "map_of (xs @ ys) p = None \<Longrightarrow> map_of (xs @ (p, e) # ys) p = Some e"
  by (simp add: map_add_def split: option.splits)

lemma lstat_insert_new:
  assumes "map_of (xs @ ys) p = None" and "x \<noteq> root @ p"
  shows "lstat root (xs @ (p, e) # ys) x = lstat root (xs @ ys) x"
proof (cases "relative_to root x")
  case None
  then show ?thesis by (simp add: lstat_def)
next
  case (Some rel)
  then have "x = root @ rel"
    by (auto simp: relative_to_def split: if_splits) (metis append_take_drop_id)
  then have "rel \<noteq> p" using assms(2) by auto
  then show ?thesis
    using Some map_of_insert_new[OF assms(1), of rel e] by (simp add: lstat_def)
qed

lemma walk_insert_new:
  assumes "map_of (xs @ ys) p = None" and "root @ p \<notin> set ps"
  shows "walk H root (xs @ (p, e) # ys) ex ps f = walk H root (xs @ ys) ex ps f"
  using assms(2)
proof (induction ps arbitrary: f)
  case Nil
  then show ?case by simp
next
  case (Cons x ps)
  then have x: "x \<noteq> root @ p" and ps: "root @ p \<notin> set ps" by auto
  have l: "lstat root (xs @ (p, e) # ys) x = lstat root (xs @ ys) x"
    by (rule lstat_insert_new[OF assms(1) x])
  have i: "is_file root (xs @ (p, e) # ys) x = is_file root (xs @ ys) x"
    by (simp add: is_file_def l)
  have c: "calculate_file_hash H root (xs @ (p, e) # ys) x = calculate_file_hash H root (xs @ ys) x"
    by (simp add: calculate_file_hash_def read_bytes_def l)
  show ?case
    using Cons.IH[OF ps] by (simp add: i c Let_def split: option.splits sum.splits)
qed

lemma walk_append:
  "walk H root t ex (ps @ qs) f =
     (case walk H root t ex ps f of Inl err \<Rightarrow> Inl err | Inr f' \<Rightarrow> walk H root t ex qs f')"
  by (induction ps arbitrary: f) (auto simp: Let_def split: option.splits sum.splits)

lemma listable_insert_new:
  assumes "map_of (xs @ ys) p = None" and "e_node e = File c"
  shows "listable (xs @ (p, e) # ys) = listable (xs @ ys)"
proof
  fix d
  show "listable (xs @ (p, e) # ys) d = listable (xs @ ys) d"
  proof (cases "d = p")
    case True
    then show ?thesis
      using assms map_of_insert_new_self[OF assms(1), of e]
      by (simp add: listable_def del: map_of_append)
  next
    case False
    then show ?thesis
      using map_of_insert_new[OF assms(1) False, of e]
      by (simp add: listable_def del: map_of_append)
  qed
qed

lemma walked_insert_new:
  assumes "map_of (xs @ ys) p = None" and "e_node e = File c"
  shows "walked (xs @ (p, e) # ys) = walked (xs @ ys)"
  using listable_insert_new[OF assms] by (intro ext) (simp add: walked_def reachable_def)

lemma rglob_split:
  "rglob root (xs @ ys) =
     map (\<lambda>q. root @ q) (walked (xs @ ys) (map fst xs)) @
     map (\<lambda>q. root @ q) (walked (xs @ ys) (map fst ys))"
  by (simp add: rglob_def walked_def)

lemma rglob_insert:
  assumes "map_of (xs @ ys) p = None" and "p \<noteq> []" and "reachable (xs @ ys) p"
    and "e_node e = File c"
  shows "rglob root (xs @ (p, e) # ys) =
     map (\<lambda>q. root @ q) (walked (xs @ ys) (map fst xs)) @
     (root @ p) # map (\<lambda>q. root @ q) (walked (xs @ ys) (map fst ys))"
  unfolding rglob_def walked_insert_new[OF assms(1,4)]
  using assms(2,3) by (simp add: walked_def)

lemma rglob_notin:
  "map_of t p = None \<Longrightarrow> root @ p \<notin> set (rglob root t)"
  by (auto simp: rglob_def walked_def map_of_eq_None_iff)

lemma walk_hits_new:
  assumes "map_of (xs @ ys) p = None" and "p \<noteq> []" and "e_node e = File c"
    and "path_name p \<noteq> DS_Store" and "str_of_path p \<noteq> str_of_path manifest_rel"
    and "map_of ex (str_of_path p) = None"
  shows "walk H root (xs @ (p, e) # ys) ex ((root @ p) # qs) f = Inl (UnexpectedFile (str_of_path p))"
proof -
  have "is_file root (xs @ (p, e) # ys) (root @ p)"
    using map_of_insert_new_self[OF assms(1), of e] assms(3) by (simp add: is_file_def)
  then show ?thesis
    using assms(2,4,5,6) by (simp add: path_name_append Let_def)
qed

lemma walk_injected_fails:
  assumes "map_of (xs @ ys) p = None" and "p \<noteq> []" and "reachable (xs @ ys) p"
    and "e_node e = File c"
    and "path_name p \<noteq> DS_Store" and "str_of_path p \<noteq> str_of_path manifest_rel"
    and "map_of ex (str_of_path p) = None"
  shows "\<exists>err. walk H root (xs @ (p, e) # ys) ex (rglob root (xs @ (p, e) # ys)) [] = Inl err"
    and "walk H root (xs @ ys) ex (map (\<lambda>q. root @ q) (walked (xs @ ys) (map fst xs))) []
           = Inr found \<Longrightarrow>
         walk H root (xs @ (p, e) # ys) ex (rglob root (xs @ (p, e) # ys)) []
           = Inl (UnexpectedFile (str_of_path p))"
proof -
  let ?t' = "xs @ (p, e) # ys"
  let ?A = "map (\<lambda>q. root @ q) (walked (xs @ ys) (map fst xs))"
  let ?B = "map (\<lambda>q. root @ q) (walked (xs @ ys) (map fst ys))"
  have split: "walk H root ?t' ex (rglob root ?t') [] =
      (case walk H root ?t' ex ?A [] of
         Inl err \<Rightarrow> Inl err
       | Inr f' \<Rightarrow> Inl (UnexpectedFile (str_of_path p)))"
    using walk_hits_new[OF assms(1,2,4-7), of H root ?B]
    by (simp add: rglob_insert[OF assms(1-4)] walk_append split: sum.splits)
  show "\<exists>err. walk H root ?t' ex (rglob root ?t') [] = Inl err"
    unfolding split by (cases "walk H root ?t' ex ?A []") auto
  assume ok: "walk H root (xs @ ys) ex ?A [] = Inr found"
  have "root @ p \<notin> set (rglob root (xs @ ys))"
    by (rule rglob_notin[OF assms(1)])
  then have "root @ p \<notin> set ?A"
    unfolding rglob_split by simp
  then have same: "walk H root ?t' ex ?A [] = walk H root (xs @ ys) ex ?A []"
    by (rule walk_insert_new[OF assms(1)])
  show "walk H root ?t' ex (rglob root ?t') [] = Inl (UnexpectedFile (str_of_path p))"
    unfolding split same ok by simp
qed


lemmas verify_defs =
  verify_manifest_def read_bytes_def is_file_def calculate_file_hash_def lstat_def
  relative_to_def rglob_def walked_def reachable_def listable_def proper_prefixes_def
  path_name_def DS_Store_def str_of_path_def manifest_rel_def
  manifest_entries_def Let_def

lemmas tree_ok_defs = tree_ok_head_def tree_ok_tail_def manifest_ok_def



text \<open>
  Nor is a file seen that lies in a directory the walk cannot enumerate: the tree still
  verifies.
\<close>

lemma hidden_file_not_detected:
  "verify_manifest H_empty tmp_b
     (tree_ok_head @ tree_ok_tail @
      [([ascii ''hidden''], (plain Dir)\<lparr>e_readable := False\<rparr>),
       ([ascii ''hidden'', ascii ''evil.txt''], plain (File []))])
     = Inr True"
  by (simp add: verify_defs parse_defs tree_ok_defs sample_defs)

section \<open>Order and reproducibility of the archive\<close>

subsection \<open>The order of the members\<close>

lemma append_le_append [simp]: "(r @ a \<le> r @ b) = (a \<le> (b :: 'a :: linorder list))"
  by (induction r) auto

lemma sort_map_append:
  "sort (map (\<lambda>p. r @ p) qs) = map (\<lambda>p. r @ p) (sort (qs :: 'a :: linorder list list))"
proof (rule properties_for_sort)
  show "mset (map (\<lambda>p. r @ p) (sort qs)) = mset (map (\<lambda>p. r @ p) qs)"
    by simp
  have "sorted_wrt (\<lambda>x y. r @ x \<le> r @ y) (sort qs)"
    using sorted_sort[of qs] by simp
  then show "sorted (map (\<lambda>p. r @ p) (sort qs))"
    by (simp only: sorted_map)
qed

lemma sort_rglob:
  "sort (rglob root t) = map (\<lambda>p. root @ p) (sort (walked t (map fst t)))"
  by (simp add: rglob_def sort_map_append)

lemma sorted_sorted_traversal: "sorted (sorted_traversal t)"
  using sorted_filter[of "\<lambda>x. x" "sort (walked t (map fst t))"]
  by (simp add: sorted_traversal_def)

lemma is_under_between:
  "a \<le> b \<Longrightarrow> b \<le> c \<Longrightarrow> is_under d a \<Longrightarrow> is_under d c \<Longrightarrow> is_under d (b :: path)"
  unfolding is_under_def
proof (induction d arbitrary: a b c)
  case Nil
  then show ?case by simp
next
  case (Cons x d)
  obtain a' where a: "a = x # a'" and a': "take (length d) a' = d"
    using Cons.prems(3) by (cases a) auto
  obtain c' where c: "c = x # c'" and c': "take (length d) c' = d"
    using Cons.prems(4) by (cases c) auto
  obtain y b' where b: "b = y # b'"
    using Cons.prems(1) a by (cases b) auto
  have "y = x" and "a' \<le> b'" and "b' \<le> c'"
    using Cons.prems(1,2) a b c by auto
  then show ?case
    using Cons.IH[of a' b' c'] a' c' b by simp
qed

lemma is_under_le: "is_under d p \<Longrightarrow> d \<le> (p :: path)"
proof -
  assume "is_under d p"
  then have p: "d @ drop (length d) p = p"
    using append_take_drop_id[of "length d" p] by (simp add: is_under_def)
  have "d @ [] \<le> d @ drop (length d) p"
    by (simp only: append_le_append) simp
  then show ?thesis using p by simp
qed

lemma normalize_name: "name (normalize_tarinfo to_int env ti) = name ti"
  by (simp add: normalize_tarinfo_def)

lemma add_all_names:
  assumes "\<forall>q\<in>set qs. q \<noteq> []" and "\<And>ti. name (flt ti) = name ti"
  shows "\<exists>n. map (\<lambda>m. name (fst m)) (members (snd (add_all flt root t (map (\<lambda>p. root @ p) qs) a)))
           = map (\<lambda>m. name (fst m)) (members a)
               @ take n (map str_of_path (filter (\<lambda>p. path_name p \<noteq> DS_Store) qs))
         \<and> (fst (add_all flt root t (map (\<lambda>p. root @ p) qs) a) = None
              \<longrightarrow> n = length (filter (\<lambda>p. path_name p \<noteq> DS_Store) qs))"
  using assms(1)
proof (induction qs arbitrary: a)
  case Nil
  then show ?case by simp
next
  case (Cons q qs)
  let ?N = "\<lambda>a. map (\<lambda>m. name (fst m)) (members a)"
  let ?F = "\<lambda>qs. filter (\<lambda>p. path_name p \<noteq> DS_Store) qs"
  let ?R = "\<lambda>qs a. add_all flt root t (map (\<lambda>p. root @ p) qs) a"
  from Cons have q: "q \<noteq> []" and qs: "\<forall>q\<in>set qs. q \<noteq> []" by auto
  have pn: "path_name (root @ q) = path_name q" by (rule path_name_append[OF q])
  show ?case
  proof (cases "path_name q = DS_Store")
    case True
    have "\<exists>n. ?N (snd (?R qs a)) = ?N a @ take n (map str_of_path (?F qs))
            \<and> (fst (?R qs a) = None \<longrightarrow> n = length (?F qs))"
      by (rule Cons.IH[OF qs])
    then obtain n where n: "?N (snd (?R qs a)) = ?N a @ take n (map str_of_path (?F qs))
            \<and> (fst (?R qs a) = None \<longrightarrow> n = length (?F qs))" ..
    have step: "?R (q # qs) a = ?R qs a"
      using True pn by simp
    have f: "?F (q # qs) = ?F qs"
      using True by simp
    show ?thesis
      unfolding step f by (rule exI[of _ n]) (rule n)
  next
    case False
    have f: "?F (q # qs) = q # ?F qs"
      using False by simp
    show ?thesis
    proof (cases "tar_add flt root t (root @ q) (str_of_path q)")
      case (Inl err)
      have step: "?R (q # qs) a = (Some err, a)"
        using False pn Inl by simp
      show ?thesis
        unfolding step by (rule exI[of _ 0]) simp
    next
      case (Inr m)
      then have nm: "name (fst m) = str_of_path q"
        using assms(2)
        by (auto simp: tar_add_def gettarinfo_def Let_def
            split: option.splits node.splits if_splits)
      let ?a = "a\<lparr>members := members a @ [m]\<rparr>"
      have "\<exists>n. ?N (snd (?R qs ?a)) = ?N ?a @ take n (map str_of_path (?F qs))
            \<and> (fst (?R qs ?a) = None \<longrightarrow> n = length (?F qs))"
        by (rule Cons.IH[OF qs])
      then obtain n where n: "?N (snd (?R qs ?a)) = ?N ?a @ take n (map str_of_path (?F qs))
            \<and> (fst (?R qs ?a) = None \<longrightarrow> n = length (?F qs))" ..
      have step: "?R (q # qs) a = ?R qs ?a"
        using False pn Inr by simp
      have "?N (snd (?R qs ?a)) = ?N a @ take (Suc n) (map str_of_path (q # ?F qs))
            \<and> (fst (?R qs ?a) = None \<longrightarrow> Suc n = length (q # ?F qs))"
        using n nm by simp
      then show ?thesis
        unfolding step f by (rule exI[of _ "Suc n"])
    qed
  qed
qed

lemma write_bundle_snd:
  "snd (write_bundle to_int env now stage_dir t) =
     (let r = add_all (normalize_tarinfo to_int env) stage_dir t (sort (rglob stage_dir t))
                (gzip_open [] (Some 0) now)
      in if fst r = None then (snd r)\<lparr>complete := True\<rparr> else snd r)"
proof (cases "add_all (normalize_tarinfo to_int env) stage_dir t (sort (rglob stage_dir t))
                (gzip_open [] (Some 0) now)")
  case (Pair e a)
  then show ?thesis by (cases e) (simp_all add: write_bundle_def Let_def)
qed

lemma write_bundle_fst:
  "fst (write_bundle to_int env now stage_dir t) =
     fst (add_all (normalize_tarinfo to_int env) stage_dir t (sort (rglob stage_dir t))
            (gzip_open [] (Some 0) now))"
proof (cases "add_all (normalize_tarinfo to_int env) stage_dir t (sort (rglob stage_dir t))
                (gzip_open [] (Some 0) now)")
  case (Pair e a)
  then show ?thesis by (cases e) (simp_all add: write_bundle_def Let_def)
qed

text \<open>
  C6: the names of the archive members are the relative paths of the staged tree in
  sorted order, compared part by part (entries named \<open>.DS_Store\<close> left out): all of
  them when the archive is written to the end, each path once for each time the tree
  lists it and never a path the loop did not pass, since \<open>tar.add\<close> is called with
  \<open>recursive=False\<close>. That order is a depth-first traversal: no entry comes before a
  directory it lies in, and the entries under one directory are consecutive.
\<close>

theorem members_in_sorted_order:
  "(\<exists>n. map (\<lambda>m. name (fst m)) (members (snd (write_bundle to_int env now stage_dir t)))
           = take n (map str_of_path (sorted_traversal t))
        \<and> (fst (write_bundle to_int env now stage_dir t) = None
             \<longrightarrow> n = length (sorted_traversal t))) \<and>
   sorted (sorted_traversal t) \<and>
   (\<forall>i j. i < j \<and> j < length (sorted_traversal t) \<and>
      is_under (sorted_traversal t ! j) (sorted_traversal t ! i)
      \<longrightarrow> sorted_traversal t ! i = sorted_traversal t ! j) \<and>
   (\<forall>d i j k. i \<le> j \<and> j \<le> k \<and> k < length (sorted_traversal t) \<and>
      is_under d (sorted_traversal t ! i) \<and> is_under d (sorted_traversal t ! k)
      \<longrightarrow> is_under d (sorted_traversal t ! j))"
proof (intro conjI allI impI)
  let ?qs = "sort (walked t (map fst t))"
  let ?flt = "normalize_tarinfo to_int env"
  let ?g = "gzip_open [] (Some 0) now"
  let ?R = "add_all ?flt stage_dir t (map (\<lambda>p. stage_dir @ p) ?qs) ?g"
  have ne: "\<forall>q\<in>set ?qs. q \<noteq> []" by (simp add: walked_def)
  have "\<exists>n. map (\<lambda>m. name (fst m)) (members (snd ?R))
          = map (\<lambda>m. name (fst m)) (members ?g)
              @ take n (map str_of_path (filter (\<lambda>p. path_name p \<noteq> DS_Store) ?qs))
        \<and> (fst ?R = None \<longrightarrow> n = length (filter (\<lambda>p. path_name p \<noteq> DS_Store) ?qs))"
    by (rule add_all_names[OF ne normalize_name])
  then obtain n where n: "map (\<lambda>m. name (fst m)) (members (snd ?R))
          = map (\<lambda>m. name (fst m)) (members ?g)
              @ take n (map str_of_path (filter (\<lambda>p. path_name p \<noteq> DS_Store) ?qs))
        \<and> (fst ?R = None \<longrightarrow> n = length (filter (\<lambda>p. path_name p \<noteq> DS_Store) ?qs))" ..
  have g: "members ?g = []" by (simp add: gzip_open_def)
  have s: "snd (write_bundle to_int env now stage_dir t)
             = (if fst ?R = None then (snd ?R)\<lparr>complete := True\<rparr> else snd ?R)"
    by (simp add: write_bundle_snd sort_rglob Let_def)
  have f: "fst (write_bundle to_int env now stage_dir t) = fst ?R"
    by (simp add: write_bundle_fst sort_rglob)
  have "map (\<lambda>m. name (fst m)) (members (snd (write_bundle to_int env now stage_dir t)))
           = take n (map str_of_path (sorted_traversal t))
        \<and> (fst (write_bundle to_int env now stage_dir t) = None
             \<longrightarrow> n = length (sorted_traversal t))"
    unfolding s f sorted_traversal_def using n g by simp
  then show "\<exists>n. map (\<lambda>m. name (fst m)) (members (snd (write_bundle to_int env now stage_dir t)))
           = take n (map str_of_path (sorted_traversal t))
        \<and> (fst (write_bundle to_int env now stage_dir t) = None
             \<longrightarrow> n = length (sorted_traversal t))"
    by (rule exI[of _ n])
next
  show "sorted (sorted_traversal t)" by (rule sorted_sorted_traversal)
next
  fix i j
  assume a: "i < j \<and> j < length (sorted_traversal t) \<and>
      is_under (sorted_traversal t ! j) (sorted_traversal t ! i)"
  then have le: "sorted_traversal t ! i \<le> sorted_traversal t ! j"
    using sorted_nth_mono[OF sorted_sorted_traversal, of i j t] by simp
  have "sorted_traversal t ! j \<le> sorted_traversal t ! i"
    using a by (intro is_under_le) simp
  then show "sorted_traversal t ! i = sorted_traversal t ! j"
    using le by simp
next
  fix d i j k
  assume a: "i \<le> j \<and> j \<le> k \<and> k < length (sorted_traversal t) \<and>
      is_under d (sorted_traversal t ! i) \<and> is_under d (sorted_traversal t ! k)"
  have "sorted_traversal t ! i \<le> sorted_traversal t ! j"
    using a sorted_nth_mono[OF sorted_sorted_traversal, of i j t] by simp
  moreover have "sorted_traversal t ! j \<le> sorted_traversal t ! k"
    using a sorted_nth_mono[OF sorted_sorted_traversal, of j k t] by simp
  ultimately show "is_under d (sorted_traversal t ! j)"
    using a by (elim is_under_between[of "sorted_traversal t ! i" _ "sorted_traversal t ! k"]) simp_all
qed

theorem members_in_sorted_order_witness:
  "sorted_traversal tree_two
     = [[ascii ''file1.txt''], [ascii ''subdir''], [ascii ''subdir'', ascii ''file2.txt'']] \<and>
   fst (write_bundle ascii_int env_1700 1712345678 tmp_a tree_two) = None \<and>
   map (\<lambda>m. name (fst m)) (members (snd (write_bundle ascii_int env_1700 1712345678 tmp_a tree_two)))
     = [ascii ''file1.txt'', ascii ''subdir'', ascii ''subdir/file2.txt'']"
proof -
  have st: "sorted_traversal tree_two
     = [[ascii ''file1.txt''], [ascii ''subdir''], [ascii ''subdir'', ascii ''file2.txt'']]"
    by (simp add: sorted_traversal_def walked_def reachable_def listable_def
        proper_prefixes_def tree_two_def plain_def path_name_def DS_Store_def ascii_def)
  have ok: "fst (write_bundle ascii_int env_1700 1712345678 tmp_a tree_two) = None"
    by (simp add: pack_defs sample_defs tree_two_def)
  have "\<exists>n. map (\<lambda>m. name (fst m))
               (members (snd (write_bundle ascii_int env_1700 1712345678 tmp_a tree_two)))
           = take n (map str_of_path (sorted_traversal tree_two))
        \<and> (fst (write_bundle ascii_int env_1700 1712345678 tmp_a tree_two) = None
             \<longrightarrow> n = length (sorted_traversal tree_two))"
    using members_in_sorted_order[of ascii_int env_1700 1712345678 tmp_a tree_two]
    by (rule conjunct1)
  then obtain n where n: "map (\<lambda>m. name (fst m))
               (members (snd (write_bundle ascii_int env_1700 1712345678 tmp_a tree_two)))
           = take n (map str_of_path (sorted_traversal tree_two))
        \<and> (fst (write_bundle ascii_int env_1700 1712345678 tmp_a tree_two) = None
             \<longrightarrow> n = length (sorted_traversal tree_two))" ..
  then have "n = length (sorted_traversal tree_two)"
    using ok by simp
  then have "map (\<lambda>m. name (fst m))
               (members (snd (write_bundle ascii_int env_1700 1712345678 tmp_a tree_two)))
           = map str_of_path (sorted_traversal tree_two)"
    using n by simp
  also have "\<dots> = [ascii ''file1.txt'', ascii ''subdir'', ascii ''subdir/file2.txt'']"
    unfolding st by (simp add: str_of_path_def ascii_def)
  finally show ?thesis
    using st ok by simp
qed

subsection \<open>Reproducibility\<close>

lemma sort_mset_eq: "mset xs = mset ys \<Longrightarrow> sort xs = sort (ys :: 'a :: linorder list)"
  by (rule properties_for_sort) simp_all

lemma staged_walked:
  assumes "\<forall>p. map_option staged (map_of t p) = map_option staged (map_of t' p)"
  shows "walked t = walked t'"
proof -
  have "listable t d = listable t' d" for d
  proof (cases "map_of t d")
    case None
    then have "map_of t' d = None" using assms by (metis map_option_is_None)
    then show ?thesis using None by (simp add: listable_def)
  next
    case (Some e)
    then obtain e' where e': "map_of t' d = Some e'" and s: "staged e = staged e'"
      using assms by (metis map_option_eq_Some option.simps(9))
    then show ?thesis using Some by (simp add: listable_def staged_def split: node.splits)
  qed
  then have "listable t = listable t'" by (rule ext)
  then have "reachable t = reachable t'" by (intro ext) (simp add: reachable_def)
  then show ?thesis by (intro ext) (simp add: walked_def)
qed

lemma tar_add_staged:
  assumes "map_option staged (map_of t q) = map_option staged (map_of t' q)"
    and "\<forall>e e' n. staged e = staged e' \<longrightarrow> flt (gettarinfo e n) = flt' (gettarinfo e' n)"
  shows "(\<exists>m. tar_add flt root t (root @ q) nm = Inr m \<and> tar_add flt' root' t' (root' @ q) nm = Inr m)
       \<or> (\<exists>x x'. tar_add flt root t (root @ q) nm = Inl x \<and> tar_add flt' root' t' (root' @ q) nm = Inl x')"
proof (cases "map_of t q")
  case None
  then have "map_of t' q = None" using assms(1) by simp
  then show ?thesis using None by (simp add: tar_add_def)
next
  case (Some e)
  then obtain e' where e': "map_of t' q = Some e'" and s: "staged e = staged e'"
    using assms(1) by (cases "map_of t' q") auto
  have n: "e_node e' = e_node e" and r: "e_readable e' = e_readable e"
    using s by (simp_all add: staged_def)
  have f: "flt (gettarinfo e nm) = flt' (gettarinfo e' nm)"
    using assms(2) s by simp
  show ?thesis
    using Some e' n r f by (cases "e_node e") (simp_all add: tar_add_def Let_def)
qed

lemma add_all_staged:
  assumes "\<forall>p. map_option staged (map_of t p) = map_option staged (map_of t' p)"
    and "\<forall>e e' n. staged e = staged e' \<longrightarrow> flt (gettarinfo e n) = flt' (gettarinfo e' n)"
    and "\<forall>q\<in>set qs. q \<noteq> []"
  shows "snd (add_all flt root t (map (\<lambda>p. root @ p) qs) a)
           = snd (add_all flt' root' t' (map (\<lambda>p. root' @ p) qs) a)
       \<and> (fst (add_all flt root t (map (\<lambda>p. root @ p) qs) a) = None)
           = (fst (add_all flt' root' t' (map (\<lambda>p. root' @ p) qs) a) = None)"
  using assms(3)
proof (induction qs arbitrary: a)
  case Nil
  then show ?case by simp
next
  case (Cons q qs)
  from Cons have q: "q \<noteq> []" and qs: "\<forall>q\<in>set qs. q \<noteq> []" by auto
  have pn: "path_name (root @ q) = path_name q" "path_name (root' @ q) = path_name q"
    by (rule path_name_append[OF q])+
  note IH = Cons.IH[OF qs]
  show ?case
  proof (cases "path_name q = DS_Store")
    case True
    then show ?thesis using IH[of a] pn by simp
  next
    case False
    have "map_option staged (map_of t q) = map_option staged (map_of t' q)"
      using assms(1) by simp
    from tar_add_staged[where flt=flt and flt'=flt' and t=t and t'=t' and q=q and root=root
        and root'=root' and nm="str_of_path q", OF this assms(2)]
    show ?thesis
    proof (elim disjE exE conjE)
      fix m
      assume "tar_add flt root t (root @ q) (str_of_path q) = Inr m"
        and "tar_add flt' root' t' (root' @ q) (str_of_path q) = Inr m"
      then show ?thesis
        using False pn IH[of "a\<lparr>members := members a @ [m]\<rparr>"] by simp
    next
      fix x x'
      assume "tar_add flt root t (root @ q) (str_of_path q) = Inl x"
        and "tar_add flt' root' t' (root' @ q) (str_of_path q) = Inl x'"
      then show ?thesis
        using False pn by simp
    qed
  qed
qed

text \<open>
  C2, as the code has it: take two runs of the archive step that agree on the
  reproducibility timestamp and on the staged tree as far as the archive keeps it: the
  same relative paths, and under each path the same type and bytes, the same permission
  bits and the same readability. The two runs leave the same output file and the same
  outer digest, and one succeeds when the other does, whatever the wall-clock times,
  the staging directories, the rest of the environment, the order in which the
  directories are enumerated, and the owners, groups, names and modification times of
  the staged files are.
\<close>

theorem archive_deterministic:
  assumes "get_source_date_epoch to_int env = get_source_date_epoch to_int env'"
    and "mset (map fst t) = mset (map fst t')"
    and "\<forall>p. map_option staged (map_of t p) = map_option staged (map_of t' p)"
  shows "snd (write_bundle to_int env now stage_dir t)
           = snd (write_bundle to_int env' now' stage_dir' t') \<and>
         (fst (write_bundle to_int env now stage_dir t) = None)
           = (fst (write_bundle to_int env' now' stage_dir' t') = None) \<and>
         outer_digest (snd (write_bundle to_int env now stage_dir t))
           = outer_digest (snd (write_bundle to_int env' now' stage_dir' t'))"
proof -
  let ?qs = "sort (walked t (map fst t))"
  have w: "walked t' = walked t"
    using staged_walked[OF assms(3)] by simp
  have "mset (walked t (map fst t)) = mset (walked t (map fst t'))"
    using assms(2) by (simp only: walked_def mset_filter)
  then have qs: "sort (walked t' (map fst t')) = ?qs"
    unfolding w by (rule sort_mset_eq[symmetric])
  have ne: "\<forall>q\<in>set ?qs. q \<noteq> []" by (simp add: walked_def)
  have g: "gzip_open [] (Some 0) now = gzip_open [] (Some 0) now'"
    by (simp add: gzip_open_def)
  have a: "snd (add_all (normalize_tarinfo to_int env) stage_dir t
                  (map (\<lambda>p. stage_dir @ p) ?qs) (gzip_open [] (Some 0) now))
         = snd (add_all (normalize_tarinfo to_int env') stage_dir' t'
                  (map (\<lambda>p. stage_dir' @ p) ?qs) (gzip_open [] (Some 0) now))
       \<and> (fst (add_all (normalize_tarinfo to_int env) stage_dir t
                  (map (\<lambda>p. stage_dir @ p) ?qs) (gzip_open [] (Some 0) now)) = None)
         = (fst (add_all (normalize_tarinfo to_int env') stage_dir' t'
                  (map (\<lambda>p. stage_dir' @ p) ?qs) (gzip_open [] (Some 0) now)) = None)"
  proof (rule add_all_staged[where flt="normalize_tarinfo to_int env"
          and flt'="normalize_tarinfo to_int env'" and t=t and t'=t' and qs="?qs"])
    show "\<forall>p. map_option staged (map_of t p) = map_option staged (map_of t' p)"
      by (rule assms(3))
    show "\<forall>e e' n. staged e = staged e' \<longrightarrow>
            normalize_tarinfo to_int env (gettarinfo e n)
              = normalize_tarinfo to_int env' (gettarinfo e' n)"
      using assms(1) by (simp add: normalize_tarinfo_def gettarinfo_def staged_def)
    show "\<forall>q\<in>set ?qs. q \<noteq> []" by (rule ne)
  qed
  let ?R1 = "add_all (normalize_tarinfo to_int env) stage_dir t
               (map (\<lambda>p. stage_dir @ p) ?qs) (gzip_open [] (Some 0) now)"
  let ?R2 = "add_all (normalize_tarinfo to_int env') stage_dir' t'
               (map (\<lambda>p. stage_dir' @ p) ?qs) (gzip_open [] (Some 0) now)"
  have s1: "snd (write_bundle to_int env now stage_dir t)
              = (if fst ?R1 = None then (snd ?R1)\<lparr>complete := True\<rparr> else snd ?R1)"
    by (simp only: write_bundle_snd sort_rglob Let_def)
  have f1: "fst (write_bundle to_int env now stage_dir t) = fst ?R1"
    by (simp only: write_bundle_fst sort_rglob)
  have s2: "snd (write_bundle to_int env' now' stage_dir' t')
              = (if fst ?R2 = None then (snd ?R2)\<lparr>complete := True\<rparr> else snd ?R2)"
    by (simp only: write_bundle_snd sort_rglob Let_def qs g)
  have f2: "fst (write_bundle to_int env' now' stage_dir' t') = fst ?R2"
    by (simp only: write_bundle_fst sort_rglob qs g)
  have e1: "snd ?R1 = snd ?R2" and e2: "(fst ?R1 = None) = (fst ?R2 = None)"
    using a by (rule conjunct1, rule conjunct2)
  have r1: "snd (write_bundle to_int env now stage_dir t)
              = snd (write_bundle to_int env' now' stage_dir' t')"
    unfolding s1 s2 e1 e2 by (rule refl)
  have r2: "(fst (write_bundle to_int env now stage_dir t) = None)
              = (fst (write_bundle to_int env' now' stage_dir' t') = None)"
    unfolding f1 f2 by (rule e2)
  show ?thesis
    using r1 r2 by (simp only: simp_thms)
qed

theorem archive_deterministic_witness:
  "tree_two \<noteq> tree_two_other \<and>
   mset (map fst tree_two) = mset (map fst tree_two_other) \<and>
   get_source_date_epoch ascii_int env_1700 = get_source_date_epoch ascii_int env_1700_ci \<and>
   fst (write_bundle ascii_int env_1700 1700000100 tmp_a tree_two) = None \<and>
   snd (write_bundle ascii_int env_1700 1700000100 tmp_a tree_two)
     = snd (write_bundle ascii_int env_1700_ci 1800000000 tmp_b tree_two_other)"
proof -
  have d: "tree_two \<noteq> tree_two_other"
    by (simp add: tree_two_def tree_two_other_def)
  have h1: "get_source_date_epoch ascii_int env_1700 = get_source_date_epoch ascii_int env_1700_ci"
    by (simp add: get_source_date_epoch_def env_1700_ci_def env_1700_def ascii_def)
  have h2: "mset (map fst tree_two) = mset (map fst tree_two_other)"
    by (simp add: tree_two_def tree_two_other_def)
  have h3: "\<forall>p. map_option staged (map_of tree_two p) = map_option staged (map_of tree_two_other p)"
    by (simp add: tree_two_def tree_two_other_def staged_def plain_def ascii_def)
  have ok: "fst (write_bundle ascii_int env_1700 1700000100 tmp_a tree_two) = None"
    by (simp add: pack_defs sample_defs tree_two_def)
  have "snd (write_bundle ascii_int env_1700 1700000100 tmp_a tree_two)
     = snd (write_bundle ascii_int env_1700_ci 1800000000 tmp_b tree_two_other)"
    using archive_deterministic[OF h1 h2 h3, of 1700000100 tmp_a 1800000000 tmp_b "\<lambda>a. a"]
    by (rule conjunct1)
  then show ?thesis
    using d h1 h2 ok by simp
qed

text \<open>
  The same path, the same bytes and the same timestamp, but permission bits 0644 in one
  staged tree and 0664 in the other: the archives differ.
\<close>

theorem archive_depends_on_mode:
  "map (\<lambda>pe. (fst pe, e_node (snd pe))) tree_one = map (\<lambda>pe. (fst pe, e_node (snd pe))) tree_one_664 \<and>
   snd (write_bundle ascii_int env_1700 1712345678 tmp_a tree_one)
     \<noteq> snd (write_bundle ascii_int env_1700 1712345678 tmp_a tree_one_664)"
  by (simp add: pack_defs sample_defs tree_one_664_def)

section \<open>Where the manifest and the verifier disagree\<close>

lemmas manifest_defs =
  generate_manifest_def mkdir_exist_ok_def write_file_def manifest_line_def manifest_text_def
  utf8_encode_def utf8_encode_char_def create_bundle_def

lemmas bundle_defs =
  verify_bundle_def is_ValueError_def

text \<open>
  C1 at a staged tree that holds \<open>artifacts/.DS_Store\<close> (an included directory copied
  from macOS): \<open>generate_manifest\<close> lists the file, the archive loop and the verifier
  both skip files of that name, so the bundle that \<open>create_bundle\<close> has just written
  does not verify: the manifest declares a file that verification never sees.
\<close>

theorem roundtrip_fails_on_ds_store:
  "fst (create_bundle H_empty ascii_int env_1700 1712345678 plain tmp_a tree_ds None)
     = Inr \<lparr>file_count = 4, source_date_epoch = 1700000000\<rparr> \<and>
   verify_bundle H_empty plain tmp_b
     (snd (create_bundle H_empty ascii_int env_1700 1712345678 plain tmp_a tree_ds None))
     = Inr \<lparr>signature_verified = None, manifest_verified = False, strict = True,
            error = Some (MissingFile (ascii ''artifacts/.DS_Store''))\<rparr>"
  by (simp add: manifest_defs bundle_defs extract_defs verify_defs parse_defs pack_defs
      sample_defs)

text \<open>
  C5 at a tree that holds a regular file \<open>manifest/sub/sha256sum.txt\<close>: the manifest
  that is generated lists \<open>a.txt\<close> only. The skip tests the first part and the name of
  the path, not the path, so it leaves out a file that is not the manifest; the verifier,
  which compares the whole path, then rejects the tree that was just given its manifest.
\<close>

theorem generate_manifest_skips_nested:
  "is_file tmp_a tree_nested (tmp_a @ [ascii ''manifest'', ascii ''sub'', ascii ''sha256sum.txt'']) \<and>
   generate_manifest H_empty plain tmp_a tree_nested
     = Inr (tree_nested @ [(manifest_rel, plain (File manifest_ok))]) \<and>
   verify_manifest H_empty tmp_a (tree_nested @ [(manifest_rel, plain (File manifest_ok))])
     = Inl (UnexpectedFile (ascii ''manifest/sub/sha256sum.txt''))"
  by (simp add: manifest_defs verify_defs parse_defs sample_defs tree_nested_def manifest_ok_def
      char_of_def bit_Suc_0_iff)

section \<open>An unreadable file in the build\<close>

lemma hash_all_fails:
  assumes "p \<in> set ps" and "is_file root t p" and "relative_to root p = Some rel"
    and "rel \<noteq> []" and "\<not> manifest_skips rel"
    and "calculate_file_hash H root t p = Inl err0"
  shows "\<exists>err. hash_all H root t ps hashes = Inl err"
  using assms(1)
proof (induction ps arbitrary: hashes)
  case Nil
  then show ?case by simp
next
  case (Cons x ps)
  show ?case
  proof (cases "x = p")
    case True
    obtain part0 rest where "rel = part0 # rest"
      using assms(4) by (cases rel) auto
    then show ?thesis
      using True assms(2,3,5,6) by (auto simp: manifest_skips_def)
  next
    case False
    then have "p \<in> set ps" using Cons.prems by simp
    then have ih: "\<exists>err. hash_all H root t ps hs = Inl err" for hs
      by (rule Cons.IH)
    show ?thesis
      using ih by (simp split: option.splits list.splits sum.splits)
  qed
qed

lemma mkdir_exist_ok_entry:
  "mkdir_exist_ok fresh t d = Inr t1 \<Longrightarrow> map_of t q = Some e \<Longrightarrow> map_of t1 q = Some e"
  by (auto simp: mkdir_exist_ok_def map_add_def split: option.splits node.splits)

lemma write_file_entry:
  assumes "write_file fresh t k c = Inr t1" and "map_of t q = Some e"
  shows "map_of t1 q = Some e \<or>
         (\<exists>c0. e_node e = File c0) \<and> map_of t1 q = Some (e\<lparr>e_node := File c\<rparr>)"
proof (cases "map_of t k")
  case None
  then have "t1 = t @ [(k, fresh (File c))]"
    using assms(1) by (simp add: write_file_def)
  then show ?thesis using assms(2) by (simp add: map_add_def)
next
  case (Some e0)
  then obtain c0 where c0: "e_node e0 = File c0"
    and t1: "t1 = AList.update k (e0\<lparr>e_node := File c\<rparr>) t"
    using assms(1) by (auto simp: write_file_def split: node.splits)
  show ?thesis
  proof (cases "q = k")
    case True
    then have "e0 = e" using Some assms(2) by simp
    then show ?thesis using True c0 t1 by (simp add: update_conv')
  next
    case False
    then show ?thesis using t1 assms(2) by (simp add: update_conv')
  qed
qed

lemma unreadable_kept:
  assumes k: "\<forall>q e. map_of t q = Some e \<longrightarrow>
                map_of t1 q = Some e \<or>
                (\<exists>c0. e_node e = File c0) \<and> (\<exists>c1. map_of t1 q = Some (e\<lparr>e_node := File c1\<rparr>))"
    and "map_of t rel = Some e" and "e_node e = File c" and "\<not> e_readable e"
    and "reachable t rel"
  shows "\<exists>e' c'. map_of t1 rel = Some e' \<and> e_node e' = File c' \<and> \<not> e_readable e' \<and>
           reachable t1 rel"
proof -
  have l: "listable t1 d" if "listable t d" for d
  proof -
    from that obtain ed where ed: "map_of t d = Some ed" "e_node ed = Dir" "e_readable ed"
      by (auto simp: listable_def split: option.splits node.splits)
    then have "map_of t1 d = Some ed" using k by fastforce
    then show ?thesis using ed by (simp add: listable_def)
  qed
  have r: "reachable t1 rel"
    using assms(5) l by (auto simp: reachable_def list_all_iff)
  have "map_of t1 rel = Some e \<or> (\<exists>c1. map_of t1 rel = Some (e\<lparr>e_node := File c1\<rparr>))"
    using k assms(2) by blast
  then show ?thesis
    using assms(3,4) r by auto
qed

lemma generate_manifest_keeps_unreadable:
  assumes "generate_manifest H fresh root st = Inr t"
    and "map_of st rel = Some e" and "e_node e = File c" and "\<not> e_readable e"
    and "reachable st rel"
  shows "\<exists>e' c'. map_of t rel = Some e' \<and> e_node e' = File c' \<and> \<not> e_readable e' \<and>
           reachable t rel"
proof -
  from assms(1) obtain t1 cc where m: "mkdir_exist_ok fresh st [ascii ''manifest''] = Inr t1"
    and w: "write_file fresh t1 manifest_rel cc = Inr t"
    by (auto simp: generate_manifest_def split: sum.splits option.splits)
  have "\<exists>e' c'. map_of t1 rel = Some e' \<and> e_node e' = File c' \<and> \<not> e_readable e' \<and>
          reachable t1 rel"
    using mkdir_exist_ok_entry[OF m] by (intro unreadable_kept[OF _ assms(2-5)]) blast
  then obtain e1 c1 where e1: "map_of t1 rel = Some e1" "e_node e1 = File c1" "\<not> e_readable e1"
    "reachable t1 rel"
    by blast
  show ?thesis
    using write_file_entry[OF w] by (intro unreadable_kept[OF _ e1]) blast
qed

lemma generate_manifest_unreadable:
  assumes "map_of st rel = Some e" and "rel \<noteq> []" and "reachable st rel"
    and "e_node e = File c" and "\<not> e_readable e" and "\<not> manifest_skips rel"
  shows "\<exists>err. generate_manifest H fresh root st = Inl err"
proof (cases "mkdir_exist_ok fresh st [ascii ''manifest'']")
  case (Inl err)
  then show ?thesis by (simp add: generate_manifest_def)
next
  case (Inr t1)
  have e1: "map_of t1 rel = Some e"
    by (rule mkdir_exist_ok_entry[OF Inr assms(1)])
  have "\<exists>e' c'. map_of t1 rel = Some e' \<and> e_node e' = File c' \<and> \<not> e_readable e' \<and>
          reachable t1 rel"
    using mkdir_exist_ok_entry[OF Inr] by (intro unreadable_kept[OF _ assms(1,4,5,3)]) blast
  then have r1: "reachable t1 rel" by blast
  have mem: "root @ rel \<in> set (sort (rglob root t1))"
    using rglob_mem[OF e1 assms(2) r1] by simp
  have f: "is_file root t1 (root @ rel)"
    using e1 assms(4) by (simp add: is_file_def)
  have c: "calculate_file_hash H root t1 (root @ rel) = Inl (PermissionError (root @ rel))"
    using e1 assms(4,5) by (simp add: calculate_file_hash_def read_bytes_def)
  have "\<exists>err. hash_all H root t1 (sort (rglob root t1)) [] = Inl err"
    by (rule hash_all_fails[OF mem f relative_to_append assms(2,6) c])
  then show ?thesis
    using Inr by (auto simp: generate_manifest_def)
qed

lemma manifest_skips_name: "manifest_skips rel \<Longrightarrow> path_name rel \<noteq> DS_Store"
  by (auto simp: manifest_skips_def DS_Store_def ascii_def split: list.splits)




end
